theory Spec2Isabelle
  imports Main "HOL-Library.AList" "HOL-Library.Monad_Syntax"
begin

unbundle bit_operations_syntax

section \<open>Values\<close>

text \<open>
  A Python \<open>str\<close> is a sequence of Unicode code points; \<open>len\<close>, \<open>strip\<close> and the
  regular expressions of the plugin all work on code points, so a string is a list of
  code points. Dictionary keys are written as Isabelle strings.
\<close>

type_synonym ustr = "nat list"

definition u :: "string \<Rightarrow> ustr" where
  "u s = map of_char s"

text \<open>
  What \<open>toml.load\<close> and the host hand to the plugin: strings, booleans, integers, lists
  and tables (dicts, in insertion order). \<open>TOther b\<close> stands for any other value (a
  float, a date) with truthiness \<open>b\<close>; it has no \<open>get\<close>, no \<open>len\<close> and is not iterable.
\<close>

datatype tval =
    TStr ustr
  | TBool bool
  | TInt int
  | TOther bool
  | TList "tval list"
  | TTable "(string \<times> tval) list"

type_synonym table = "(string \<times> tval) list"

fun truthy :: "tval \<Rightarrow> bool" where
  "truthy (TStr s) = (s \<noteq> [])"
| "truthy (TBool b) = b"
| "truthy (TInt i) = (i \<noteq> 0)"
| "truthy (TOther b) = b"
| "truthy (TList xs) = (xs \<noteq> [])"
| "truthy (TTable kv) = (kv \<noteq> [])"

text \<open>
  An exception that is not caught where it is raised travels to the enclosing
  \<open>except Exception\<close>, which treats every exception alike. Such a computation returns
  an option, \<open>None\<close> for "raised".

  \<open>d.get(k, default)\<close>: only a dict has \<open>get\<close> (AttributeError otherwise).
\<close>

fun py_get :: "tval \<Rightarrow> string \<Rightarrow> tval \<Rightarrow> tval option" where
  "py_get (TTable kv) k d = Some (case map_of kv k of None \<Rightarrow> d | Some v \<Rightarrow> v)"
| "py_get _ k d = None"

text \<open>
  \<open>for rule in x\<close>: a list gives its elements, a dict its keys, a string its
  characters; anything else is not iterable (TypeError).
\<close>

fun py_iter :: "tval \<Rightarrow> tval list option" where
  "py_iter (TList xs) = Some xs"
| "py_iter (TTable kv) = Some (map (\<lambda>kv. TStr (u (fst kv))) kv)"
| "py_iter (TStr s) = Some (map (\<lambda>c. TStr [c]) s)"
| "py_iter _ = None"

text \<open>
  \<open>starts_with ic p s\<close>: the string \<open>s\<close> starts with \<open>p\<close>; with \<open>ic\<close> the case of
  ASCII letters is ignored.
\<close>

definition lower_ascii :: "nat \<Rightarrow> nat" where
  "lower_ascii c = (if 65 \<le> c \<and> c \<le> 90 then c + 32 else c)"

fun starts_with :: "bool \<Rightarrow> ustr \<Rightarrow> ustr \<Rightarrow> bool" where
  "starts_with ic [] s = True"
| "starts_with ic (p # ps) [] = False"
| "starts_with ic (p # ps) (c # cs) =
     ((if ic then lower_ascii p = lower_ascii c else p = c) \<and> starts_with ic ps cs)"

section \<open>The regular expression library\<close>

text \<open>
  Python's \<open>re\<close> module is not part of the plugin: it is a parameter. \<open>re_compiles p f\<close>
  says whether pattern \<open>p\<close> compiles under flags \<open>f\<close>; \<open>re_subst p f r s\<close> is the
  result of substituting template \<open>r\<close> for the matches of the compiled pattern in \<open>s\<close>,
  or \<open>None\<close> when the template is rejected (\<open>re.error\<close>, for instance an invalid group
  reference).
\<close>

record regex_lib =
  re_compiles :: "ustr \<Rightarrow> nat \<Rightarrow> bool"
  re_subst :: "ustr \<Rightarrow> nat \<Rightarrow> ustr \<Rightarrow> ustr \<Rightarrow> ustr option"

definition re_IGNORECASE :: nat where "re_IGNORECASE = 2"
definition re_MULTILINE :: nat where "re_MULTILINE = 8"

datatype sub_result = Substituted ustr | ReError | OtherError

text \<open>
  \<open>re.sub(pattern, repl, string, flags=flags)\<close>: the pattern is compiled first (a
  pattern that is not a string is a TypeError, one that does not compile a \<open>re.error\<close>),
  then template and subject must be strings (TypeError).
\<close>

definition re_sub :: "regex_lib \<Rightarrow> tval \<Rightarrow> tval \<Rightarrow> ustr \<Rightarrow> nat \<Rightarrow> sub_result" where
  "re_sub re pattern repl content flags =
     (case pattern of
        TStr p \<Rightarrow>
          if \<not> re_compiles re p flags then ReError
          else (case repl of
                  TStr r \<Rightarrow> (case re_subst re p flags r content of
                               None \<Rightarrow> ReError
                             | Some t \<Rightarrow> Substituted t)
                | _ \<Rightarrow> OtherError)
      | _ \<Rightarrow> OtherError)"

section \<open>ConfigManager.load_config\<close>

text \<open>
  The configuration file is missing, or cannot be opened or read, or holds a text.
  \<open>toml.load\<close> is a parameter: it returns the parsed document, or \<open>None\<close> when it
  raises. \<open>load_config\<close> returns the configuration and whether an error was logged.
\<close>

datatype config_file = FileMissing | FileUnreadable | FileText ustr

type_synonym toml_parser = "ustr \<Rightarrow> table option"

fun load_config :: "toml_parser \<Rightarrow> config_file \<Rightarrow> table \<times> bool" where
  "load_config toml FileMissing = ([], False)"
| "load_config toml FileUnreadable = ([], True)"
| "load_config toml (FileText txt) =
     (case toml txt of None \<Rightarrow> ([], True) | Some cfg \<Rightarrow> (cfg, False))"

section \<open>RegexMessageFilter\<close>

subsection \<open>Whitespace clean-up\<close>

text \<open>
  Python's whitespace (\<open>str.isspace\<close>), which is what \<open>str.strip()\<close> removes and what
  \<open>\s\<close> matches in a \<open>str\<close> pattern.
\<close>

definition is_space :: "nat \<Rightarrow> bool" where
  "is_space c \<longleftrightarrow>
     (9 \<le> c \<and> c \<le> 13) \<or> (28 \<le> c \<and> c \<le> 32) \<or> c = 133 \<or> c = 160 \<or> c = 5760 \<or>
     (8192 \<le> c \<and> c \<le> 8202) \<or> c = 8232 \<or> c = 8233 \<or> c = 8239 \<or> c = 8287 \<or> c = 12288"

text \<open>The class \<open>[ \t]\<close>.\<close>

definition is_blank :: "nat \<Rightarrow> bool" where
  "is_blank c \<longleftrightarrow> c = 32 \<or> c = 9"

definition strip :: "ustr \<Rightarrow> ustr" where
  "strip s = rev (dropWhile is_space (rev (dropWhile is_space s)))"

text \<open>
  \<open>re.sub(r'\n\s*\n\s*', '\n\n', content)\<close>. Scanning from the left, a match starts at
  a line feed when the run of whitespace after it holds another line feed; the greedy
  \<open>\s*\<close> then take the whole run.
\<close>

function sub_paragraphs :: "ustr \<Rightarrow> ustr" where
  "sub_paragraphs [] = []"
| "sub_paragraphs (c # cs) =
     (if c = 10 \<and> 10 \<in> set (takeWhile is_space cs)
      then 10 # 10 # sub_paragraphs (dropWhile is_space cs)
      else c # sub_paragraphs cs)"
  by pat_completeness auto
termination
  by (relation "measure length") (auto simp: length_dropWhile_le less_Suc_eq_le)

text \<open>\<open>re.sub(r'[ \t]+', ' ', content)\<close>: every maximal run of blanks becomes one space.\<close>

function sub_blanks :: "ustr \<Rightarrow> ustr" where
  "sub_blanks [] = []"
| "sub_blanks (c # cs) =
     (if is_blank c then 32 # sub_blanks (dropWhile is_blank cs)
      else c # sub_blanks cs)"
  by pat_completeness auto
termination
  by (relation "measure length") (auto simp: length_dropWhile_le less_Suc_eq_le)

text \<open>\<open>re.sub(r'\n[ \t]+', '\n', content)\<close>: blanks after a line feed go.\<close>

function sub_line_start :: "ustr \<Rightarrow> ustr" where
  "sub_line_start [] = []"
| "sub_line_start (c # cs) =
     (if c = 10 \<and> takeWhile is_blank cs \<noteq> []
      then 10 # sub_line_start (dropWhile is_blank cs)
      else c # sub_line_start cs)"
  by pat_completeness auto
termination
  by (relation "measure length") (auto simp: length_dropWhile_le less_Suc_eq_le)

text \<open>
  \<open>re.sub(r'[ \t]+\n', '\n', content)\<close>: a run of blanks goes when a line feed follows
  it; a run followed by anything else matches nowhere.
\<close>

function sub_line_end :: "ustr \<Rightarrow> ustr" where
  "sub_line_end [] = []"
| "sub_line_end (c # cs) =
     (if is_blank c \<and> (case dropWhile is_blank cs of [] \<Rightarrow> False | d # ds \<Rightarrow> d = 10)
      then 10 # sub_line_end (tl (dropWhile is_blank cs))
      else c # sub_line_end cs)"
  by pat_completeness auto
termination
proof (relation "measure length")
  show "wf (measure length)"
    by simp
next
  fix c :: nat and cs :: ustr
  have "length (dropWhile is_blank cs) \<le> length cs"
    by (rule length_dropWhile_le)
  then show "(tl (dropWhile is_blank cs), c # cs) \<in> measure length"
    by simp
next
  fix c :: nat and cs :: ustr
  show "(cs, c # cs) \<in> measure length"
    by simp
qed

definition clean_extra_whitespace :: "ustr \<Rightarrow> ustr" where
  "clean_extra_whitespace content =
     (if content = [] then content
      else strip (sub_line_end (sub_line_start (sub_blanks (sub_paragraphs (strip content))))))"

subsection \<open>The rule stages\<close>

text \<open>
  The flags of a rule: \<open>flags = 0\<close>, then \<open>flags |= re.IGNORECASE\<close> and
  \<open>flags |= re.MULTILINE\<close> as the rule asks.
\<close>

definition rule_flags :: "tval \<Rightarrow> nat option" where
  "rule_flags rule = do {
     ignore_case \<leftarrow> py_get rule ''ignore_case'' (TBool False);
     multiline \<leftarrow> py_get rule ''multiline'' (TBool False);
     let flags = 0;
     let flags = (if truthy ignore_case then flags OR re_IGNORECASE else flags);
     let flags = (if truthy multiline then flags OR re_MULTILINE else flags);
     Some flags
   }"

text \<open>
  One turn of the loop over the replace rules. A disabled rule is skipped; a
  \<open>re.error\<close> is caught (and logged) and leaves the content as it was; any other
  exception leaves the loop.
\<close>

definition replace_step :: "regex_lib \<Rightarrow> tval \<Rightarrow> ustr \<Rightarrow> ustr option" where
  "replace_step re rule content = do {
     enabled \<leftarrow> py_get rule ''enabled'' (TBool True);
     if \<not> truthy enabled then Some content
     else do {
       pattern \<leftarrow> py_get rule ''pattern'' (TStr []);
       replacement \<leftarrow> py_get rule ''replacement'' (TStr []);
       flags \<leftarrow> rule_flags rule;
       (case re_sub re pattern replacement content flags of
          Substituted t \<Rightarrow> Some t
        | ReError \<Rightarrow> Some content
        | OtherError \<Rightarrow> None)
     }
   }"

fun apply_replace_rules :: "regex_lib \<Rightarrow> tval list \<Rightarrow> ustr \<Rightarrow> ustr option" where
  "apply_replace_rules re [] content = Some content"
| "apply_replace_rules re (rule # rules) content =
     (case replace_step re rule content of
        None \<Rightarrow> None
      | Some content' \<Rightarrow> apply_replace_rules re rules content')"

definition delete_step :: "regex_lib \<Rightarrow> tval \<Rightarrow> ustr \<Rightarrow> ustr option" where
  "delete_step re rule content = do {
     enabled \<leftarrow> py_get rule ''enabled'' (TBool True);
     if \<not> truthy enabled then Some content
     else do {
       pattern \<leftarrow> py_get rule ''pattern'' (TStr []);
       flags \<leftarrow> rule_flags rule;
       (case re_sub re pattern (TStr []) content flags of
          Substituted t \<Rightarrow> Some t
        | ReError \<Rightarrow> Some content
        | OtherError \<Rightarrow> None)
     }
   }"

fun apply_delete_rules :: "regex_lib \<Rightarrow> tval list \<Rightarrow> ustr \<Rightarrow> ustr option" where
  "apply_delete_rules re [] content = Some content"
| "apply_delete_rules re (rule # rules) content =
     (case delete_step re rule content of
        None \<Rightarrow> None
      | Some content' \<Rightarrow> apply_delete_rules re rules content')"

text \<open>
  \<open>content + processed_content\<close> and \<open>processed_content + content\<close>, where the
  processed content is a string: the rule's content must be a string too (TypeError).
\<close>

definition append_step :: "tval \<Rightarrow> ustr \<Rightarrow> ustr option" where
  "append_step rule processed = do {
     enabled \<leftarrow> py_get rule ''enabled'' (TBool True);
     if \<not> truthy enabled then Some processed
     else do {
       position \<leftarrow> py_get rule ''position'' (TStr (u ''end''));
       content \<leftarrow> py_get rule ''content'' (TStr []);
       (case content of
          TStr c \<Rightarrow> if position = TStr (u ''start'') then Some (c @ processed)
                    else Some (processed @ c)
        | _ \<Rightarrow> None)
     }
   }"

fun apply_append_rules :: "tval list \<Rightarrow> ustr \<Rightarrow> ustr option" where
  "apply_append_rules [] processed = Some processed"
| "apply_append_rules (rule # rules) processed =
     (case append_step rule processed of
        None \<Rightarrow> None
      | Some processed' \<Rightarrow> apply_append_rules rules processed')"

text \<open>\<open>config.get("rules", {}).get(key, [])\<close>, as the \<open>for\<close> loop walks it.\<close>

definition rules_of :: "table \<Rightarrow> string \<Rightarrow> tval list option" where
  "rules_of config key = do {
     rules \<leftarrow> py_get (TTable config) ''rules'' (TTable []);
     lst \<leftarrow> py_get rules key (TList []);
     py_iter lst
   }"

text \<open>
  Lines 229 to 283 of \<open>execute\<close>: the three stages in their order, then the clean-up,
  on a content that is a string.
\<close>

definition transform :: "regex_lib \<Rightarrow> table \<Rightarrow> ustr \<Rightarrow> ustr option" where
  "transform re config original = do {
     replace_rules \<leftarrow> rules_of config ''replace_rules'';
     replaced \<leftarrow> apply_replace_rules re replace_rules original;
     delete_rules \<leftarrow> rules_of config ''delete_rules'';
     deleted \<leftarrow> apply_delete_rules re delete_rules replaced;
     append_rules \<leftarrow> rules_of config ''append_rules'';
     appended \<leftarrow> apply_append_rules append_rules deleted;
     Some (clean_extra_whitespace appended)
   }"

text \<open>The content after the replace and the delete stage (lines 229 to 266).\<close>

definition replace_delete_stages ::
  "regex_lib \<Rightarrow> tval list \<Rightarrow> tval list \<Rightarrow> ustr \<Rightarrow> ustr option" where
  "replace_delete_stages re replace_rules delete_rules content =
     Option.bind (apply_replace_rules re replace_rules content) (apply_delete_rules re delete_rules)"

subsection \<open>RegexMessageFilter.execute\<close>

datatype handler_message =
    MsgPluginDisabled
  | MsgParamsEmpty
  | MsgNoResponse
  | MsgNoContent
  | MsgProcessed
  | MsgUnchanged
  | MsgError

record handler_result =
  success :: bool
  continue_process :: bool
  message :: handler_message

definition handled :: "handler_message \<Rightarrow> handler_result" where
  "handled m = \<lparr>success = True, continue_process = True, message = m\<rparr>"

definition failed :: handler_result where
  "failed = \<lparr>success = False, continue_process = True, message = MsgError\<rparr>"

text \<open>
  \<open>params\<close> is \<open>None\<close> or a dict; \<open>llm_response\<close> is an entry of it, a dict that the
  handler updates in place, so the handler returns the parameters as it leaves them.
  A content that is truthy and not a string raises before line 286 whatever the rules
  are (at \<open>len\<close>, in \<open>re.sub\<close>, at \<open>+\<close>, or at the latest at \<open>content.strip()\<close>), so it
  ends in the \<open>except\<close> branch with nothing written. The look-up of
  \<open>advanced.log_changes\<close> comes after the write of line 288: when it raises, the
  handler fails with the content already written.
\<close>

definition plugin_enabled :: "table \<Rightarrow> tval option" where
  "plugin_enabled config = do {
     plugin \<leftarrow> py_get (TTable config) ''plugin'' (TTable []);
     py_get plugin ''enabled'' (TBool True)
   }"

definition log_changes_of :: "table \<Rightarrow> tval option" where
  "log_changes_of config = do {
     advanced \<leftarrow> py_get (TTable config) ''advanced'' (TTable []);
     py_get advanced ''log_changes'' (TBool False)
   }"

definition execute ::
  "regex_lib \<Rightarrow> toml_parser \<Rightarrow> config_file \<Rightarrow> table option \<Rightarrow> handler_result \<times> table option" where
  "execute re toml file params =
     (let config = fst (load_config toml file) in
      case plugin_enabled config of
        None \<Rightarrow> (failed, params)
      | Some enabled \<Rightarrow>
          if \<not> truthy enabled then (handled MsgPluginDisabled, params)
          else (case params of
              None \<Rightarrow> (handled MsgParamsEmpty, params)
            | Some pm \<Rightarrow>
                if pm = [] then (handled MsgParamsEmpty, params)
                else (case map_of pm ''llm_response'' of
                    None \<Rightarrow> (handled MsgNoResponse, params)
                  | Some llm_response \<Rightarrow>
                      if \<not> truthy llm_response then (handled MsgNoResponse, params)
                      else (case llm_response of
                          TTable llm \<Rightarrow>
                            (case map_of llm ''content'' of
                               None \<Rightarrow> (handled MsgNoContent, params)
                             | Some original_content \<Rightarrow>
                                 if \<not> truthy original_content then (handled MsgNoContent, params)
                                 else (case original_content of
                                     TStr original \<Rightarrow>
                                       (case transform re config original of
                                          None \<Rightarrow> (failed, params)
                                        | Some cleaned \<Rightarrow>
                                            if cleaned \<noteq> original then
                                              (let params' = Some (AList.update ''llm_response''
                                                     (TTable (AList.update ''content'' (TStr cleaned) llm)) pm)
                                               in case log_changes_of config of
                                                    None \<Rightarrow> (failed, params')
                                                  | Some log_changes \<Rightarrow> (handled MsgProcessed, params'))
                                            else (handled MsgUnchanged, params))
                                   | _ \<Rightarrow> (failed, params)))
                        | _ \<Rightarrow> (failed, params)))))"

section \<open>RegexAddCommand: the rules it creates\<close>

text \<open>The dicts built by \<open>_add_replace_rule\<close>, \<open>_add_delete_rule\<close> and \<open>_add_append_rule\<close>.\<close>

definition new_replace_rule :: "ustr \<Rightarrow> ustr \<Rightarrow> tval" where
  "new_replace_rule pattern replacement = TTable
     [(''pattern'', TStr pattern),
      (''replacement'', TStr replacement),
      (''enabled'', TBool True),
      (''ignore_case'', TBool False),
      (''multiline'', TBool False),
      (''description'', TStr ([26367, 25442, 39] @ pattern @ [39, 20026, 39] @ replacement @ [39]))]"

definition new_delete_rule :: "ustr \<Rightarrow> tval" where
  "new_delete_rule pattern = TTable
     [(''pattern'', TStr pattern),
      (''enabled'', TBool True),
      (''ignore_case'', TBool False),
      (''multiline'', TBool False),
      (''description'', TStr ([21024, 38500, 39] @ pattern @ [39]))]"

definition new_append_rule :: "ustr \<Rightarrow> ustr \<Rightarrow> tval" where
  "new_append_rule content position = TTable
     [(''content'', TStr content),
      (''position'', TStr position),
      (''enabled'', TBool True),
      (''description'', TStr ((if position = u ''start'' then [21069, 32512] else [21518, 32512])
                              @ [28155, 21152, 39] @ content @ [39]))]"

section \<open>RegexTestCommand.execute\<close>

text \<open>
  The host's \<open>CommandArgs\<close>: the raw text after the command and its tokens
  (\<open>is_empty\<close> is "no token", \<open>get_raw\<close> the raw text).
\<close>

record command_args =
  raw :: ustr
  tokens :: "ustr list"

text \<open>
  The two loops of the test command call \<open>re.sub(pattern, replacement, test_text)\<close>
  and \<open>re.sub(pattern, "", test_text)\<close>: no flags are passed.
\<close>

definition test_replace_step :: "regex_lib \<Rightarrow> tval \<Rightarrow> ustr \<Rightarrow> ustr option" where
  "test_replace_step re rule test_text = do {
     enabled \<leftarrow> py_get rule ''enabled'' (TBool True);
     if \<not> truthy enabled then Some test_text
     else do {
       pattern \<leftarrow> py_get rule ''pattern'' (TStr []);
       replacement \<leftarrow> py_get rule ''replacement'' (TStr []);
       (case re_sub re pattern replacement test_text 0 of
          Substituted t \<Rightarrow> Some t
        | ReError \<Rightarrow> Some test_text
        | OtherError \<Rightarrow> None)
     }
   }"

fun test_replace_rules :: "regex_lib \<Rightarrow> tval list \<Rightarrow> ustr \<Rightarrow> ustr option" where
  "test_replace_rules re [] test_text = Some test_text"
| "test_replace_rules re (rule # rules) test_text =
     (case test_replace_step re rule test_text of
        None \<Rightarrow> None
      | Some t \<Rightarrow> test_replace_rules re rules t)"

definition test_delete_step :: "regex_lib \<Rightarrow> tval \<Rightarrow> ustr \<Rightarrow> ustr option" where
  "test_delete_step re rule test_text = do {
     enabled \<leftarrow> py_get rule ''enabled'' (TBool True);
     if \<not> truthy enabled then Some test_text
     else do {
       pattern \<leftarrow> py_get rule ''pattern'' (TStr []);
       (case re_sub re pattern (TStr []) test_text 0 of
          Substituted t \<Rightarrow> Some t
        | ReError \<Rightarrow> Some test_text
        | OtherError \<Rightarrow> None)
     }
   }"

fun test_delete_rules :: "regex_lib \<Rightarrow> tval list \<Rightarrow> ustr \<Rightarrow> ustr option" where
  "test_delete_rules re [] test_text = Some test_text"
| "test_delete_rules re (rule # rules) test_text =
     (case test_delete_step re rule test_text of
        None \<Rightarrow> None
      | Some t \<Rightarrow> test_delete_rules re rules t)"

definition test_stages ::
  "regex_lib \<Rightarrow> tval list \<Rightarrow> tval list \<Rightarrow> ustr \<Rightarrow> ustr option" where
  "test_stages re replace_rules delete_rules test_text =
     Option.bind (test_replace_rules re replace_rules test_text) (test_delete_rules re delete_rules)"

datatype test_message = TestMissingText | TestDone | TestFailed

record test_result =
  test_success :: bool
  test_message :: test_message
  original_text :: ustr
  processed_text :: ustr
  text_changed :: bool

text \<open>
  The command reads the configuration and returns; it has no access to the file
  other than \<open>load_config\<close>, so the file is an argument and not a result.
\<close>

definition test_execute ::
  "regex_lib \<Rightarrow> toml_parser \<Rightarrow> config_file \<Rightarrow> command_args \<Rightarrow> test_result" where
  "test_execute re toml file args =
     (if tokens args = [] then
        \<lparr>test_success = False, test_message = TestMissingText, original_text = [],
         processed_text = [], text_changed = False\<rparr>
      else
        (let test_text = raw args;
             original = test_text;
             config = fst (load_config toml file)
         in case do {
              replace_rules \<leftarrow> rules_of config ''replace_rules'';
              replaced \<leftarrow> test_replace_rules re replace_rules test_text;
              delete_rules \<leftarrow> rules_of config ''delete_rules'';
              test_delete_rules re delete_rules replaced } of
            None \<Rightarrow>
              \<lparr>test_success = False, test_message = TestFailed, original_text = original,
               processed_text = original, text_changed = False\<rparr>
          | Some t \<Rightarrow>
              \<lparr>test_success = True, test_message = TestDone, original_text = original,
               processed_text = t, text_changed = (t \<noteq> original)\<rparr>))"

section \<open>ConfigManager.save_config\<close>

subsection \<open>Python built-ins\<close>

text \<open>
  \<open>str()\<close> of a float, a date, a list or a dict, \<open>str.lower()\<close> and \<open>int()\<close> of a string
  are built-ins that the model takes as parameters (\<open>py_int\<close> is \<open>None\<close> for a
  ValueError). \<open>str()\<close> of a string, a boolean and an integer is written out.
\<close>

record python_lib =
  py_repr :: "tval \<Rightarrow> ustr"
  py_lower :: "ustr \<Rightarrow> ustr"
  py_int :: "ustr \<Rightarrow> int option"

function digits :: "nat \<Rightarrow> ustr" where
  "digits n = (if n < 10 then [48 + n] else digits (n div 10) @ [48 + n mod 10])"
  by pat_completeness auto
termination
  by (relation "measure id") auto

declare digits.simps [simp del]

definition show_int :: "int \<Rightarrow> ustr" where
  "show_int i = (if i < 0 then 45 # digits (nat (- i)) else digits (nat i))"

definition py_str :: "python_lib \<Rightarrow> tval \<Rightarrow> ustr" where
  "py_str lib v =
     (case v of
        TStr s \<Rightarrow> s
      | TBool b \<Rightarrow> (if b then u ''True'' else u ''False'')
      | TInt i \<Rightarrow> show_int i
      | _ \<Rightarrow> py_repr lib v)"

text \<open>\<open>str(v).lower()\<close>; for a boolean it is \<open>true\<close> or \<open>false\<close>, for an integer its digits.\<close>

definition str_lower :: "python_lib \<Rightarrow> tval \<Rightarrow> ustr" where
  "str_lower lib v =
     (case v of
        TBool b \<Rightarrow> (if b then u ''true'' else u ''false'')
      | TInt i \<Rightarrow> show_int i
      | _ \<Rightarrow> py_lower lib (py_str lib v))"

fun contains_sub :: "ustr \<Rightarrow> ustr \<Rightarrow> bool" where
  "contains_sub p [] = (p = [])"
| "contains_sub p (c # cs) = (starts_with False p (c # cs) \<or> contains_sub p cs)"

text \<open>
  \<open>k in x\<close>: a key of a dict, an element of a list, a substring of a string; a
  TypeError otherwise. \<open>x[k]\<close> with a string \<open>k\<close>: the entry of a dict (KeyError when
  there is none), a TypeError otherwise.
\<close>

fun py_contains :: "tval \<Rightarrow> string \<Rightarrow> bool option" where
  "py_contains (TTable kv) k = Some (map_of kv k \<noteq> None)"
| "py_contains (TList xs) k = Some (TStr (u k) \<in> set xs)"
| "py_contains (TStr s) k = Some (contains_sub (u k) s)"
| "py_contains _ k = None"

fun py_index :: "tval \<Rightarrow> string \<Rightarrow> tval option" where
  "py_index (TTable kv) k = map_of kv k"
| "py_index _ k = None"

subsection \<open>The generated text\<close>

text \<open>\<open>s.replace(old, new)\<close> for a single character \<open>old\<close>.\<close>

definition replace_char :: "nat \<Rightarrow> ustr \<Rightarrow> ustr \<Rightarrow> ustr" where
  "replace_char old new s = concat (map (\<lambda>c. if c = old then new else [c]) s)"

text \<open>
  \<open>_escape_toml_string\<close>: backslash, double quote, line feed, carriage return and
  tabulator are escaped, in this order. A value that is not a string has no
  \<open>replace\<close> (AttributeError).
\<close>

definition escape_str :: "ustr \<Rightarrow> ustr" where
  "escape_str s =
     replace_char 9 [92, 116] (replace_char 13 [92, 114] (replace_char 10 [92, 110]
       (replace_char 34 [92, 34] (replace_char 92 [92, 92] s))))"

definition escape_toml_string :: "tval \<Rightarrow> ustr option" where
  "escape_toml_string v = (case v of TStr s \<Rightarrow> Some (escape_str s) | _ \<Rightarrow> None)"

definition header_text :: ustr where
  "header_text =
     u ''# regex_filter_plugin - '' @ [33258, 21160, 29983, 25104, 30340, 37197, 32622, 25991,
       20214, 10, 35, 32, 19968, 20010, 20351, 29992, 27491, 21017, 34920, 36798, 24335, 22788,
       29702] @ u ''LLM'' @ [28040, 24687, 30340] @ u ''MaiBot'' @ [25554, 20214, 65292, 21487,
       20197, 23545] @ u ''LLM'' @ [22238, 22797, 36827, 34892, 26367, 25442, 12289, 21024,
       38500, 12289, 22686, 28155, 31561, 25805, 20316, 12290, 10, 10]"

definition plugin_header :: ustr where
  "plugin_header =
     [35, 32, 25554, 20214, 22522, 26412, 37197, 32622, 10] @ u ''[plugin]'' @ [10, 10]"

definition enabled_comment :: ustr where
  "enabled_comment = [35, 32, 26159, 21542, 21551, 29992, 25554, 20214, 10]"

definition version_comment :: ustr where
  "version_comment = [35, 32, 37197, 32622, 25991, 20214, 29256, 26412, 10]"

definition rules_header :: ustr where
  "rules_header =
     [10, 35, 32, 27491, 21017, 36807, 28388, 35268, 21017, 37197, 32622, 10] @ u ''[rules]'' @
     [10, 10]"

definition replace_comment :: ustr where
  "replace_comment = [35, 32, 26367, 25442, 35268, 21017, 21015, 34920, 10]"

definition delete_comment :: ustr where
  "delete_comment = [35, 32, 21024, 38500, 35268, 21017, 21015, 34920, 10]"

definition append_comment :: ustr where
  "append_comment = [35, 32, 28155, 21152, 35268, 21017, 21015, 34920, 10]"

definition advanced_header :: ustr where
  "advanced_header = [35, 32, 39640, 32423, 35774, 32622, 10] @ u ''[advanced]'' @ [10, 10]"

definition max_length_comment :: ustr where
  "max_length_comment = [35, 32, 26368, 22823, 22788, 29702, 20869, 23481, 38271, 24230, 10]"

definition log_changes_comment :: ustr where
  "log_changes_comment = [35, 32, 26159, 21542, 35760, 24405, 26356, 25913, 26085, 24535, 10]"

text \<open>A line \<open>key = "text"\<close> and a line \<open>key = text\<close>, each with its line feed.\<close>

definition quoted_line :: "string \<Rightarrow> ustr \<Rightarrow> ustr" where
  "quoted_line key text = u key @ u '' = '' @ [34] @ text @ [34, 10]"

definition plain_line :: "string \<Rightarrow> ustr \<Rightarrow> ustr" where
  "plain_line key text = u key @ u '' = '' @ text @ [10]"

text \<open>The optional description line of a rule.\<close>

definition description_line :: "tval \<Rightarrow> ustr option" where
  "description_line rule = do {
     has \<leftarrow> py_contains rule ''description'';
     if has then do {
       d \<leftarrow> py_index rule ''description'';
       desc \<leftarrow> escape_toml_string d;
       Some (quoted_line ''description'' desc)
     } else Some []
   }"

definition replace_rule_text :: "python_lib \<Rightarrow> tval \<Rightarrow> ustr option" where
  "replace_rule_text lib rule = do {
     p \<leftarrow> py_get rule ''pattern'' (TStr []);
     pattern \<leftarrow> escape_toml_string p;
     r \<leftarrow> py_get rule ''replacement'' (TStr []);
     replacement \<leftarrow> escape_toml_string r;
     enabled \<leftarrow> py_get rule ''enabled'' (TBool True);
     ignore_case \<leftarrow> py_get rule ''ignore_case'' (TBool False);
     multiline \<leftarrow> py_get rule ''multiline'' (TBool False);
     description \<leftarrow> description_line rule;
     Some (u ''[[rules.replace_rules]]'' @ [10] @
           quoted_line ''pattern'' pattern @
           quoted_line ''replacement'' replacement @
           plain_line ''enabled'' (str_lower lib enabled) @
           plain_line ''ignore_case'' (str_lower lib ignore_case) @
           plain_line ''multiline'' (str_lower lib multiline) @
           description @ [10])
   }"

definition delete_rule_text :: "python_lib \<Rightarrow> tval \<Rightarrow> ustr option" where
  "delete_rule_text lib rule = do {
     p \<leftarrow> py_get rule ''pattern'' (TStr []);
     pattern \<leftarrow> escape_toml_string p;
     enabled \<leftarrow> py_get rule ''enabled'' (TBool True);
     ignore_case \<leftarrow> py_get rule ''ignore_case'' (TBool False);
     multiline \<leftarrow> py_get rule ''multiline'' (TBool False);
     description \<leftarrow> description_line rule;
     Some (u ''[[rules.delete_rules]]'' @ [10] @
           quoted_line ''pattern'' pattern @
           plain_line ''enabled'' (str_lower lib enabled) @
           plain_line ''ignore_case'' (str_lower lib ignore_case) @
           plain_line ''multiline'' (str_lower lib multiline) @
           description @ [10])
   }"

definition append_rule_text :: "python_lib \<Rightarrow> tval \<Rightarrow> ustr option" where
  "append_rule_text lib rule = do {
     c \<leftarrow> py_get rule ''content'' (TStr []);
     content \<leftarrow> escape_toml_string c;
     p \<leftarrow> py_get rule ''position'' (TStr (u ''end''));
     position \<leftarrow> escape_toml_string p;
     enabled \<leftarrow> py_get rule ''enabled'' (TBool True);
     description \<leftarrow> description_line rule;
     Some (u ''[[rules.append_rules]]'' @ [10] @
           quoted_line ''content'' content @
           quoted_line ''position'' position @
           plain_line ''enabled'' (str_lower lib enabled) @
           description @ [10])
   }"

text \<open>The loop over a rule list: the texts of the rules one after the other.\<close>

fun rules_text :: "(tval \<Rightarrow> ustr option) \<Rightarrow> tval list \<Rightarrow> ustr option" where
  "rules_text f [] = Some []"
| "rules_text f (rule # rules) =
     (case f rule of
        None \<Rightarrow> None
      | Some t \<Rightarrow> (case rules_text f rules of None \<Rightarrow> None | Some ts \<Rightarrow> Some (t @ ts)))"

text \<open>\<open>if key in rules_config:\<close> the comment and the rules of the list under \<open>key\<close>.\<close>

definition rule_list_text ::
  "tval \<Rightarrow> string \<Rightarrow> ustr \<Rightarrow> (tval \<Rightarrow> ustr option) \<Rightarrow> ustr option" where
  "rule_list_text rules_config key comment f = do {
     has \<leftarrow> py_contains rules_config key;
     if has then do {
       lst \<leftarrow> py_index rules_config key;
       rules \<leftarrow> py_iter lst;
       ts \<leftarrow> rules_text f rules;
       Some (comment @ ts)
     } else Some []
   }"

definition plugin_text :: "python_lib \<Rightarrow> table \<Rightarrow> ustr option" where
  "plugin_text lib config_data =
     (case map_of config_data ''plugin'' of
        None \<Rightarrow> Some []
      | Some plugin_config \<Rightarrow> do {
          has_enabled \<leftarrow> py_contains plugin_config ''enabled'';
          enabled \<leftarrow> (if has_enabled then do {
                         v \<leftarrow> py_index plugin_config ''enabled'';
                         Some (enabled_comment @ plain_line ''enabled'' (str_lower lib v) @ [10])
                       } else Some []);
          has_version \<leftarrow> py_contains plugin_config ''config_version'';
          version \<leftarrow> (if has_version then do {
                         v \<leftarrow> py_index plugin_config ''config_version'';
                         Some (version_comment @
                               quoted_line ''config_version'' (escape_str (py_str lib v)) @ [10])
                       } else Some []);
          Some (plugin_header @ enabled @ version)
        })"

definition rules_section_text :: "python_lib \<Rightarrow> table \<Rightarrow> ustr option" where
  "rules_section_text lib config_data =
     (case map_of config_data ''rules'' of
        None \<Rightarrow> Some []
      | Some rules_config \<Rightarrow> do {
          replaces \<leftarrow> rule_list_text rules_config ''replace_rules'' replace_comment
                        (replace_rule_text lib);
          deletes \<leftarrow> rule_list_text rules_config ''delete_rules'' delete_comment
                       (delete_rule_text lib);
          appends \<leftarrow> rule_list_text rules_config ''append_rules'' append_comment
                       (append_rule_text lib);
          Some (rules_header @ replaces @ deletes @ appends)
        })"

definition advanced_text :: "python_lib \<Rightarrow> table \<Rightarrow> ustr option" where
  "advanced_text lib config_data =
     (case map_of config_data ''advanced'' of
        None \<Rightarrow> Some []
      | Some advanced_config \<Rightarrow> do {
          has_length \<leftarrow> py_contains advanced_config ''max_content_length'';
          max_length \<leftarrow> (if has_length then do {
                            v \<leftarrow> py_index advanced_config ''max_content_length'';
                            Some (max_length_comment @
                                  plain_line ''max_content_length'' (py_str lib v) @ [10])
                          } else Some []);
          has_log \<leftarrow> py_contains advanced_config ''log_changes'';
          log_changes \<leftarrow> (if has_log then do {
                             v \<leftarrow> py_index advanced_config ''log_changes'';
                             Some (log_changes_comment @
                                   plain_line ''log_changes'' (str_lower lib v))
                           } else Some []);
          Some (advanced_header @ max_length @ log_changes)
        })"

text \<open>\<open>_generate_toml_content\<close>: the text, or \<open>None\<close> when an exception is raised.\<close>

definition generate_toml_content :: "python_lib \<Rightarrow> table \<Rightarrow> ustr option" where
  "generate_toml_content lib config_data = do {
     plugin \<leftarrow> plugin_text lib config_data;
     rules \<leftarrow> rules_section_text lib config_data;
     advanced \<leftarrow> advanced_text lib config_data;
     Some (header_text @ plugin @ rules @ advanced)
   }"

subsection \<open>Writing the file\<close>

text \<open>
  The disk holds the configuration file and lets the plugin write it or not (the
  directory cannot be made, the file cannot be opened). \<open>save_config\<close> returns
  \<open>False\<close> and leaves the file when the text cannot be generated or the disk refuses;
  a write that stops half way is not modelled.
\<close>

record disk =
  stored :: config_file
  writable :: bool

definition save_config :: "python_lib \<Rightarrow> table \<Rightarrow> disk \<Rightarrow> bool \<times> disk" where
  "save_config lib config_data d =
     (if \<not> writable d then (False, d)
      else (case generate_toml_content lib config_data of
              None \<Rightarrow> (False, d)
            | Some toml_content \<Rightarrow> (True, d\<lparr>stored := FileText toml_content\<rparr>)))"

section \<open>RegexRemoveCommand\<close>

datatype rule_kind = Replace | Delete | Append


text \<open>\<open>rule_key = f"{rule_type}_rules"\<close>.\<close>

fun rule_key :: "rule_kind \<Rightarrow> string" where
  "rule_key Replace = ''replace_rules''"
| "rule_key Delete = ''delete_rules''"
| "rule_key Append = ''append_rules''"

text \<open>\<open>len(x)\<close>, a TypeError for a value without length.\<close>

fun py_len :: "tval \<Rightarrow> nat option" where
  "py_len (TStr s) = Some (length s)"
| "py_len (TList xs) = Some (length xs)"
| "py_len (TTable kv) = Some (length kv)"
| "py_len _ = None"

text \<open>
  \<open>x.pop(index)\<close> for an index within the length: a list loses the element at the
  index; a dict has no integer key (KeyError) and a string no \<open>pop\<close> (AttributeError).
\<close>

fun py_pop :: "tval \<Rightarrow> nat \<Rightarrow> tval list option" where
  "py_pop (TList xs) i = Some (take i xs @ drop (Suc i) xs)"
| "py_pop _ i = None"

text \<open>
  \<open>_delete_rule\<close>: \<open>Some (success, disk)\<close>, or \<open>None\<close> when an exception leaves it (the
  disk is then as it was, nothing has been written). The list is popped in place, so
  the configuration that is saved holds the shorter list under the same key.
\<close>

definition delete_rule ::
  "python_lib \<Rightarrow> toml_parser \<Rightarrow> disk \<Rightarrow> rule_kind \<Rightarrow> int \<Rightarrow> (bool \<times> disk) option" where
  "delete_rule lib toml d rule_type index =
     (let config = fst (load_config toml (stored d)) in
      case map_of config ''rules'' of
        None \<Rightarrow> Some (False, d)
      | Some rules_config \<Rightarrow> do {
          has \<leftarrow> py_contains rules_config (rule_key rule_type);
          if \<not> has then Some (False, d)
          else do {
            rules_list \<leftarrow> py_index rules_config (rule_key rule_type);
            n \<leftarrow> py_len rules_list;
            if index < 0 \<or> index \<ge> int n then Some (False, d)
            else do {
              remaining \<leftarrow> py_pop rules_list (nat index);
              kv \<leftarrow> (case rules_config of TTable kv \<Rightarrow> Some kv | _ \<Rightarrow> None);
              Some (save_config lib
                      (AList.update ''rules''
                         (TTable (AList.update (rule_key rule_type) (TList remaining) kv)) config)
                      d)
            }
          }
        })"



section \<open>RegexFilterPlugin.config_schema\<close>

text \<open>The defaults that the schema of the plugin class declares.\<close>

definition default_replace_rules :: "tval list" where
  "default_replace_rules =
     [TTable [(''pattern'', TStr [19981, 21487, 20197]),
              (''replacement'', TStr [21487, 20197]),
              (''enabled'', TBool True),
              (''ignore_case'', TBool False),
              (''multiline'', TBool False),
              (''description'', TStr [23558, 39, 19981, 21487, 20197, 39, 26367, 25442, 20026,
                                      39, 21487, 20197, 39])],
      TTable [(''pattern'', TStr [40, 31967, 31957, 124, 22351, 124, 19981, 22909, 41]),
              (''replacement'', TStr [22909]),
              (''enabled'', TBool True),
              (''ignore_case'', TBool False),
              (''multiline'', TBool False),
              (''description'', TStr [23558, 36127, 38754, 35789, 27719, 26367, 25442, 20026,
                                      39, 22909, 39])]]"

definition default_delete_rules :: "tval list" where
  "default_delete_rules =
     [TTable [(''pattern'', TStr [38382, 39064]),
              (''enabled'', TBool True),
              (''ignore_case'', TBool False),
              (''multiline'', TBool False),
              (''description'', TStr [21024, 38500, 25152, 26377, 39, 38382, 39064, 39,
                                      23383, 26679])]]"

definition default_config :: table where
  "default_config =
     [(''plugin'', TTable [(''enabled'', TBool True), (''config_version'', TStr (u ''1.0.0''))]),
      (''rules'', TTable [(''replace_rules'', TList default_replace_rules),
                          (''delete_rules'', TList default_delete_rules),
                          (''append_rules'', TList [])]),
      (''advanced'', TTable [(''max_content_length'', TInt 10000),
                             (''log_changes'', TBool False)])]"

section \<open>A regular expression library for literal patterns\<close>

text \<open>
  Substitution for a pattern without metacharacters and a template without
  backslashes: the occurrences of the pattern are replaced from the left, without
  overlap; an empty pattern matches before every character and at the end. With
  \<open>ic\<close> the comparison ignores the case of ASCII letters.
\<close>

function replace_all :: "bool \<Rightarrow> ustr \<Rightarrow> ustr \<Rightarrow> ustr \<Rightarrow> ustr" where
  "replace_all ic p r [] = (if p = [] then r else [])"
| "replace_all ic p r (c # cs) =
     (if p = [] then r @ c # replace_all ic p r cs
      else if starts_with ic p (c # cs) then r @ replace_all ic p r (drop (length p - 1) cs)
      else c # replace_all ic p r cs)"
  by pat_completeness auto
termination
  by (relation "measure (\<lambda>(ic, p, r, s). length s)") auto

text \<open>The metacharacters \<^verbatim>\<open>. ^ $ * + ? { } [ ] \ | ( )\<close>.\<close>

definition is_meta :: "nat \<Rightarrow> bool" where
  "is_meta c \<longleftrightarrow> c \<in> set [46, 94, 36, 42, 43, 63, 123, 125, 91, 93, 92, 124, 40, 41]"

text \<open>
  The library of the literal fragment: a pattern with a metacharacter is refused,
  a template with a backslash is refused, the flag \<open>re.IGNORECASE\<close> is honoured.
\<close>

definition literal_re :: regex_lib where
  "literal_re =
     \<lparr>re_compiles = (\<lambda>p flags. \<not> list_ex is_meta p),
      re_subst = (\<lambda>p flags r s.
         if list_ex (\<lambda>c. c = 92) r then None
         else Some (replace_all (flags AND re_IGNORECASE \<noteq> 0) p r s))\<rparr>"

text \<open>
  A library reads pattern \<open>p\<close> and template \<open>r\<close> literally (without flags) when it
  substitutes as \<open>replace_all\<close> does.
\<close>

definition literally :: "regex_lib \<Rightarrow> ustr \<Rightarrow> ustr \<Rightarrow> bool" where
  "literally re p r \<longleftrightarrow>
     re_compiles re p 0 \<and> (\<forall>s. re_subst re p 0 r s = Some (replace_all False p r s))"

section \<open>A reader for the generated text\<close>





















section \<open>Well-typed configurations and what is saved of them\<close>



























section \<open>Built-ins for ASCII, for examples\<close>


section \<open>Notions of the specification\<close>

text \<open>
  An enabled append rule with position \<open>start\<close> (respectively any other position) and
  the string \<open>c\<close> as content.
\<close>

definition is_start_rule :: "tval \<Rightarrow> ustr \<Rightarrow> bool" where
  "is_start_rule rule c \<longleftrightarrow>
     (case py_get rule ''enabled'' (TBool True) of None \<Rightarrow> False | Some e \<Rightarrow> truthy e) \<and>
     py_get rule ''position'' (TStr (u ''end'')) = Some (TStr (u ''start'')) \<and>
     py_get rule ''content'' (TStr []) = Some (TStr c)"

definition is_end_rule :: "tval \<Rightarrow> ustr \<Rightarrow> bool" where
  "is_end_rule rule c \<longleftrightarrow>
     (case py_get rule ''enabled'' (TBool True) of None \<Rightarrow> False | Some e \<Rightarrow> truthy e) \<and>
     (case py_get rule ''position'' (TStr (u ''end'')) of
        None \<Rightarrow> False | Some p \<Rightarrow> p \<noteq> TStr (u ''start'')) \<and>
     py_get rule ''content'' (TStr []) = Some (TStr c)"

text \<open>
  A piece of content is closest to the original content in a buffer when the buffer
  ends with the piece followed by the original content (for a prefix), or starts with
  the original content followed by the piece (for a suffix).
\<close>

definition ends_with :: "ustr \<Rightarrow> ustr \<Rightarrow> bool" where
  "ends_with out t \<longleftrightarrow> length t \<le> length out \<and> drop (length out - length t) out = t"

definition begins_with :: "ustr \<Rightarrow> ustr \<Rightarrow> bool" where
  "begins_with out t \<longleftrightarrow> take (length t) out = t"

text \<open>The entries of the parameters and of the response in them.\<close>

definition param_entry :: "table option \<Rightarrow> string \<Rightarrow> tval option" where
  "param_entry params k = (case params of None \<Rightarrow> None | Some pm \<Rightarrow> map_of pm k)"

definition response_field :: "table option \<Rightarrow> string \<Rightarrow> tval option" where
  "response_field params k =
     (case param_entry params ''llm_response'' of
        Some (TTable llm) \<Rightarrow> map_of llm k
      | _ \<Rightarrow> None)"

text \<open>A parser that knows one text only, for examples.\<close>

definition toml_const :: "table \<Rightarrow> toml_parser" where
  "toml_const cfg txt = (if txt = [] then Some cfg else None)"

section \<open>Normal forms of the whitespace clean-up\<close>

text \<open>
  \<open>all_tails L s\<close>: every non-empty suffix of \<open>s\<close> satisfies \<open>L\<close>. The four local
  conditions say what a string looks like after the four substitutions: at a line
  feed whose whitespace run holds another line feed, that line feed comes next and
  the run ends there; a blank is a single space; no blank follows a line feed; no
  run of blanks ends at a line feed.
\<close>

fun all_tails :: "(ustr \<Rightarrow> bool) \<Rightarrow> ustr \<Rightarrow> bool" where
  "all_tails L [] = True"
| "all_tails L (c # cs) = (L (c # cs) \<and> all_tails L cs)"

definition clean_start :: "ustr \<Rightarrow> bool" where
  "clean_start s \<longleftrightarrow> (case s of [] \<Rightarrow> True | c # cs \<Rightarrow> \<not> is_space c)"

definition blank_free_start :: "ustr \<Rightarrow> bool" where
  "blank_free_start s \<longleftrightarrow> (case s of [] \<Rightarrow> True | c # cs \<Rightarrow> \<not> is_blank c)"

fun paragraph_ok :: "ustr \<Rightarrow> bool" where
  "paragraph_ok [] = True"
| "paragraph_ok (c # cs) =
     (if c = 10 \<and> 10 \<in> set (takeWhile is_space cs)
      then (case cs of [] \<Rightarrow> False | d # ds \<Rightarrow> d = 10 \<and> clean_start ds)
      else True)"

fun blank_ok :: "ustr \<Rightarrow> bool" where
  "blank_ok [] = True"
| "blank_ok (c # cs) = (if is_blank c then c = 32 \<and> blank_free_start cs else True)"

fun line_start_ok :: "ustr \<Rightarrow> bool" where
  "line_start_ok [] = True"
| "line_start_ok (c # cs) = (if c = 10 then blank_free_start cs else True)"

fun line_end_ok :: "ustr \<Rightarrow> bool" where
  "line_end_ok [] = True"
| "line_end_ok (c # cs) =
     (if is_blank c then (case dropWhile is_blank cs of [] \<Rightarrow> True | d # ds \<Rightarrow> d \<noteq> 10)
      else True)"

definition trimmed :: "ustr \<Rightarrow> bool" where
  "trimmed s \<longleftrightarrow> s = [] \<or> (\<not> is_space (hd s) \<and> \<not> is_space (last s))"

section \<open>Example configurations\<close>

definition disabled_config :: table where
  "disabled_config =
     [(''plugin'', TTable [(''enabled'', TBool False), (''config_version'', TStr (u ''1.0.0''))]),
      (''rules'', TTable [(''replace_rules'', TList default_replace_rules),
                          (''delete_rules'', TList default_delete_rules),
                          (''append_rules'', TList [])])]"

definition sample_params :: "table option" where
  "sample_params =
     Some [(''llm_response'',
            TTable [(''content'', TStr [36825, 20010, 38382, 39064, 19981, 21487, 20197, 35299, 20915]),
                    (''model'', TStr (u ''m''))])]"

definition ignore_case_rule :: tval where
  "ignore_case_rule = TTable
     [(''pattern'', TStr (u ''a'')),
      (''replacement'', TStr (u ''b'')),
      (''enabled'', TBool True),
      (''ignore_case'', TBool True),
      (''multiline'', TBool False)]"




section \<open>Helper lemmas\<close>






lemma replace_step_literally:
  assumes "literally re p r"
  shows "replace_step re (new_replace_rule p r) c = Some (replace_all False p r c)"
  using assms
  by (simp add: literally_def replace_step_def new_replace_rule_def rule_flags_def re_sub_def)

lemma delete_step_literally:
  assumes "literally re p []"
  shows "delete_step re (new_delete_rule p) c = Some (replace_all False p [] c)"
  using assms
  by (simp add: literally_def delete_step_def new_delete_rule_def rule_flags_def re_sub_def)

lemma literal_re_literally:
  "\<not> list_ex is_meta p \<Longrightarrow> \<not> list_ex (\<lambda>c. c = 92) r \<Longrightarrow> literally literal_re p r"
  by (simp add: literally_def literal_re_def re_IGNORECASE_def)

lemma start_step: "is_start_rule rule c \<Longrightarrow> append_step rule buf = Some (c @ buf)"
  by (cases rule) (auto simp: is_start_rule_def append_step_def split: option.splits)

lemma end_step: "is_end_rule rule c \<Longrightarrow> append_step rule buf = Some (buf @ c)"
  by (cases rule) (auto simp: is_end_rule_def append_step_def split: option.splits)

lemma start_rules_prefix:
  "list_all2 is_start_rule rules cs \<Longrightarrow>
   apply_append_rules rules buf = Some (concat (rev cs) @ buf)"
proof (induction rules cs arbitrary: buf rule: list_all2_induct)
  case Nil
  then show ?case by simp
next
  case (Cons rule rules c cs)
  then show ?case by (simp add: start_step)
qed

lemma end_rules_suffix:
  "list_all2 is_end_rule rules cs \<Longrightarrow>
   apply_append_rules rules buf = Some (buf @ concat cs)"
proof (induction rules cs arbitrary: buf rule: list_all2_induct)
  case Nil
  then show ?case by simp
next
  case (Cons rule rules c cs)
  then show ?case by (simp add: end_step)
qed

lemma new_start_rule: "is_start_rule (new_append_rule c (u ''start'')) c"
  by (simp add: is_start_rule_def new_append_rule_def)

lemma new_end_rule: "is_end_rule (new_append_rule c (u ''end'')) c"
  by (simp add: is_end_rule_def new_append_rule_def u_def)

lemma execute_cases:
  assumes "execute re toml file params = (res, params')"
  shows "params' = params \<or>
         (\<exists>pm llm original cleaned.
            params = Some pm \<and> map_of pm ''llm_response'' = Some (TTable llm) \<and>
            map_of llm ''content'' = Some (TStr original) \<and>
            transform re (fst (load_config toml file)) original = Some cleaned \<and>
            cleaned \<noteq> original \<and>
            params' = Some (AList.update ''llm_response''
                        (TTable (AList.update ''content'' (TStr cleaned) llm)) pm))"
  using assms
  by (auto simp: execute_def Let_def split: option.splits if_splits tval.splits)



lemma delete_rule_no_list:
  assumes "map_of (fst (load_config toml (stored d))) ''rules'' = None \<or>
           (\<exists>rules. map_of (fst (load_config toml (stored d))) ''rules'' = Some (TTable rules) \<and>
              map_of rules (rule_key kind) = None)"
  shows "delete_rule lib toml d kind index = Some (False, d)"
  using assms by (auto simp: delete_rule_def Let_def)




section \<open>Lemmas on the whitespace clean-up\<close>

lemma blank_is_space: "is_blank c \<Longrightarrow> is_space c"
  by (auto simp: is_blank_def is_space_def)

lemma space_10 [simp]: "is_space 10"
  by (simp add: is_space_def)

lemma not_blank_10 [simp]: "\<not> is_blank 10"
  by (simp add: is_blank_def)

lemma blank_32 [simp]: "is_blank 32"
  by (simp add: is_blank_def)

lemma sub_line_start_simp:
  "sub_line_start (c # cs) =
     (if c = 10 then 10 # sub_line_start (dropWhile is_blank cs) else c # sub_line_start cs)"
  by (cases cs) auto

lemma all_tails_dropWhile: "all_tails L s \<Longrightarrow> all_tails L (dropWhile Q s)"
  by (induction s) auto

lemma all_tails_tl: "all_tails L s \<Longrightarrow> all_tails L (tl s)"
  by (cases s) auto

lemma takeWhile_space_split:
  "takeWhile is_space s = takeWhile is_blank s @ takeWhile is_space (dropWhile is_blank s)"
  by (induction s) (auto simp: blank_is_space)

lemma newline_in_run_dropWhile:
  "10 \<in> set (takeWhile is_space (dropWhile is_blank s)) \<longleftrightarrow> 10 \<in> set (takeWhile is_space s)"
proof -
  have "10 \<notin> set (takeWhile is_blank s)"
    by (auto dest: set_takeWhileD)
  then show ?thesis
    by (subst (2) takeWhile_space_split) simp
qed


subsection \<open>First characters\<close>

lemma clean_start_dropWhile: "clean_start (dropWhile is_space s)"
  by (induction s) (auto simp: clean_start_def)

lemma blank_free_start_dropWhile: "blank_free_start (dropWhile is_blank s)"
  by (induction s) (auto simp: blank_free_start_def)

lemma clean_start_blank_free: "clean_start s \<Longrightarrow> blank_free_start s"
  by (auto simp: clean_start_def blank_free_start_def blank_is_space split: list.splits)

lemma clean_start_no_run: "clean_start s \<Longrightarrow> takeWhile is_space s = []"
  by (cases s) (auto simp: clean_start_def)

lemma clean_start_dropWhile_id: "clean_start s \<Longrightarrow> dropWhile is_space s = s"
  by (cases s) (auto simp: clean_start_def)

lemma blank_free_dropWhile_id: "blank_free_start s \<Longrightarrow> dropWhile is_blank s = s"
  by (cases s) (auto simp: blank_free_start_def)

lemma clean_start_paragraphs: "clean_start s \<Longrightarrow> clean_start (sub_paragraphs s)"
  by (cases s) (auto simp: clean_start_def)

lemma clean_start_blanks: "clean_start s \<Longrightarrow> clean_start (sub_blanks s)"
  by (cases s) (auto simp: clean_start_def blank_is_space)

lemma clean_start_line_start: "clean_start s \<Longrightarrow> clean_start (sub_line_start s)"
  by (cases s) (auto simp: clean_start_def sub_line_start_simp)

lemma clean_start_line_end: "clean_start s \<Longrightarrow> clean_start (sub_line_end s)"
  by (cases s) (auto simp: clean_start_def blank_is_space)

lemma blank_free_blanks: "blank_free_start s \<Longrightarrow> blank_free_start (sub_blanks s)"
  by (cases s) (auto simp: blank_free_start_def)

lemma blank_free_line_start: "blank_free_start s \<Longrightarrow> blank_free_start (sub_line_start s)"
  by (cases s) (auto simp: blank_free_start_def sub_line_start_simp)

lemma blank_free_line_end: "blank_free_start s \<Longrightarrow> blank_free_start (sub_line_end s)"
  by (cases s) (auto simp: blank_free_start_def)

subsection \<open>Line feeds in the leading run of whitespace\<close>

lemma newline_in_run_paragraphs:
  "10 \<in> set (takeWhile is_space (sub_paragraphs s)) \<longleftrightarrow> 10 \<in> set (takeWhile is_space s)"
  by (induction s rule: sub_paragraphs.induct) auto

lemma newline_in_run_blanks:
  "10 \<in> set (takeWhile is_space (sub_blanks s)) \<longleftrightarrow> 10 \<in> set (takeWhile is_space s)"
proof (induction s rule: sub_blanks.induct)
  case 1
  then show ?case by simp
next
  case (2 c cs)
  show ?case
  proof (cases "is_blank c")
    case True
    then have "c \<noteq> 10" by auto
    with True 2 show ?thesis
      by (simp add: blank_is_space newline_in_run_dropWhile)
  next
    case False
    with 2 show ?thesis by simp
  qed
qed

lemma newline_in_run_line_start:
  "10 \<in> set (takeWhile is_space (sub_line_start s)) \<longleftrightarrow> 10 \<in> set (takeWhile is_space s)"
  by (induction s rule: sub_line_start.induct) (auto simp: sub_line_start_simp simp del: sub_line_start.simps(2))

lemma newline_in_run_line_end:
  "10 \<in> set (takeWhile is_space (sub_line_end s)) \<longleftrightarrow> 10 \<in> set (takeWhile is_space s)"
proof (induction s rule: sub_line_end.induct)
  case 1
  then show ?case by simp
next
  case (2 c cs)
  show ?case
  proof (cases "is_blank c \<and> (case dropWhile is_blank cs of [] \<Rightarrow> False | d # ds \<Rightarrow> d = 10)")
    case True
    then obtain ds where ds: "dropWhile is_blank cs = 10 # ds"
      by (auto split: list.splits)
    have "10 \<in> set (takeWhile is_space (dropWhile is_blank cs))"
      by (simp add: ds)
    then have "10 \<in> set (takeWhile is_space cs)"
      by (simp add: newline_in_run_dropWhile)
    with True show ?thesis
      by (simp add: ds blank_is_space)
  next
    case False
    with 2 show ?thesis by auto
  qed
qed


subsection \<open>Paragraph breaks\<close>

lemma paragraphs_fixed: "all_tails paragraph_ok s \<Longrightarrow> sub_paragraphs s = s"
proof (induction s rule: sub_paragraphs.induct)
  case 1
  then show ?case by simp
next
  case (2 c cs)
  show ?case
  proof (cases "c = 10 \<and> 10 \<in> set (takeWhile is_space cs)")
    case True
    with "2.prems" obtain ds where ds: "cs = 10 # ds" "clean_start ds"
      by (auto split: list.splits)
    have rest: "dropWhile is_space cs = ds"
      by (simp add: ds clean_start_dropWhile_id)
    have "all_tails paragraph_ok ds"
      using "2.prems" by (simp add: ds(1))
    with "2.IH"(1) [OF True] rest have "sub_paragraphs ds = ds"
      by simp
    with True rest show ?thesis
      by (simp add: ds(1))
  next
    case False
    with 2 show ?thesis by auto
  qed
qed

lemma paragraphs_normal: "all_tails paragraph_ok (sub_paragraphs s)"
proof (induction s rule: sub_paragraphs.induct)
  case 1
  then show ?case by simp
next
  case (2 c cs)
  show ?case
  proof (cases "c = 10 \<and> 10 \<in> set (takeWhile is_space cs)")
    case True
    have cl: "clean_start (sub_paragraphs (dropWhile is_space cs))"
      by (simp add: clean_start_paragraphs clean_start_dropWhile)
    from True 2 cl show ?thesis
      by (simp add: clean_start_no_run)
  next
    case False
    with 2 show ?thesis
      by (auto simp: newline_in_run_paragraphs)
  qed
qed

lemma paragraph_ok_newline:
  "paragraph_ok (10 # cs) \<Longrightarrow> 10 \<in> set (takeWhile is_space cs) \<Longrightarrow>
   \<exists>ds. cs = 10 # ds \<and> clean_start ds"
  by (auto split: list.splits)

lemma paragraphs_kept_by_blanks:
  "all_tails paragraph_ok s \<Longrightarrow> all_tails paragraph_ok (sub_blanks s)"
proof (induction s rule: sub_blanks.induct)
  case 1
  then show ?case by simp
next
  case (2 c cs)
  show ?case
  proof (cases "is_blank c")
    case True
    with 2 show ?thesis
      by (simp add: all_tails_dropWhile)
  next
    case False
    have tails: "all_tails paragraph_ok (sub_blanks cs)"
      using 2 False by simp
    have "paragraph_ok (c # sub_blanks cs)"
    proof (cases "c = 10 \<and> 10 \<in> set (takeWhile is_space (sub_blanks cs))")
      case True
      then have "10 \<in> set (takeWhile is_space cs)"
        by (simp add: newline_in_run_blanks)
      with True "2.prems" obtain ds where ds: "cs = 10 # ds" "clean_start ds"
        using paragraph_ok_newline [of cs] by auto
      then show ?thesis
        using True by (simp add: clean_start_blanks)
    next
      case False
      then show ?thesis by auto
    qed
    with tails False show ?thesis by simp
  qed
qed

lemma paragraphs_kept_by_line_start:
  "all_tails paragraph_ok s \<Longrightarrow> all_tails paragraph_ok (sub_line_start s)"
proof (induction s rule: sub_line_start.induct)
  case 1
  then show ?case by simp
next
  case (2 c cs)
  show ?case
  proof (cases "c = 10")
    case True
    have tails: "all_tails paragraph_ok (sub_line_start (dropWhile is_blank cs))"
    proof (cases "takeWhile is_blank cs = []")
      case True
      then have "dropWhile is_blank cs = cs"
        by (cases cs) (auto split: if_splits)
      with 2 True \<open>c = 10\<close> show ?thesis by simp
    next
      case False
      with 2 \<open>c = 10\<close> show ?thesis
        by (simp add: all_tails_dropWhile)
    qed
    have "paragraph_ok (10 # sub_line_start (dropWhile is_blank cs))"
    proof (cases "10 \<in> set (takeWhile is_space (sub_line_start (dropWhile is_blank cs)))")
      case True
      then have "10 \<in> set (takeWhile is_space cs)"
        by (simp add: newline_in_run_line_start newline_in_run_dropWhile)
      with \<open>c = 10\<close> "2.prems" obtain ds where ds: "cs = 10 # ds" "clean_start ds"
        using paragraph_ok_newline [of cs] by auto
      have "dropWhile is_blank ds = ds"
        using ds(2) by (simp add: clean_start_blank_free blank_free_dropWhile_id)
      then show ?thesis
        using ds by (simp add: sub_line_start_simp clean_start_line_start del: sub_line_start.simps(2))
    next
      case False
      then show ?thesis by simp
    qed
    with tails True show ?thesis
      by (simp add: sub_line_start_simp del: sub_line_start.simps(2))
  next
    case False
    with 2 show ?thesis by simp
  qed
qed

lemma paragraphs_kept_by_line_end:
  "all_tails paragraph_ok s \<Longrightarrow> all_tails paragraph_ok (sub_line_end s)"
proof (induction s rule: sub_line_end.induct)
  case 1
  then show ?case by simp
next
  case (2 c cs)
  show ?case
  proof (cases "is_blank c \<and> (case dropWhile is_blank cs of [] \<Rightarrow> False | d # ds \<Rightarrow> d = 10)")
    case True
    then obtain ds where ds: "dropWhile is_blank cs = 10 # ds"
      by (auto split: list.splits)
    have "all_tails paragraph_ok (dropWhile is_blank cs)"
      using "2.prems" by (simp add: all_tails_dropWhile)
    then have here: "paragraph_ok (10 # ds)" and below: "all_tails paragraph_ok ds"
      by (simp_all add: ds)
    have tails: "all_tails paragraph_ok (sub_line_end ds)"
      using "2.IH"(1) [OF True] below by (simp add: ds)
    have "paragraph_ok (10 # sub_line_end ds)"
    proof (cases "10 \<in> set (takeWhile is_space (sub_line_end ds))")
      case True
      then have "10 \<in> set (takeWhile is_space ds)"
        by (simp add: newline_in_run_line_end)
      with here obtain ds' where ds': "ds = 10 # ds'" "clean_start ds'"
        using paragraph_ok_newline [of ds] by auto
      then show ?thesis
        by (simp add: clean_start_line_end)
    next
      case False
      then show ?thesis by simp
    qed
    with tails True show ?thesis
      by (simp add: ds)
  next
    case False
    then have unfold: "sub_line_end (c # cs) = c # sub_line_end cs"
      by auto
    have tails: "all_tails paragraph_ok (sub_line_end cs)"
      using 2 False by simp
    have "paragraph_ok (c # sub_line_end cs)"
    proof (cases "c = 10 \<and> 10 \<in> set (takeWhile is_space (sub_line_end cs))")
      case True
      then have "10 \<in> set (takeWhile is_space cs)"
        by (simp add: newline_in_run_line_end)
      with True "2.prems" obtain ds where ds: "cs = 10 # ds" "clean_start ds"
        using paragraph_ok_newline [of cs] by auto
      then show ?thesis
        using True by (simp add: clean_start_line_end)
    next
      case False
      then show ?thesis by auto
    qed
    with tails show ?thesis
      by (simp only: unfold all_tails.simps)
  qed
qed


subsection \<open>Single spaces\<close>

lemma blanks_fixed: "all_tails blank_ok s \<Longrightarrow> sub_blanks s = s"
proof (induction s rule: sub_blanks.induct)
  case 1
  then show ?case by simp
next
  case (2 c cs)
  show ?case
  proof (cases "is_blank c")
    case True
    with "2.prems" have c: "c = 32" and free: "blank_free_start cs" and tails: "all_tails blank_ok cs"
      by simp_all
    have "dropWhile is_blank cs = cs"
      using free by (rule blank_free_dropWhile_id)
    with "2.IH"(1) [OF True] tails True c show ?thesis
      by simp
  next
    case False
    with 2 show ?thesis by simp
  qed
qed

lemma blanks_normal: "all_tails blank_ok (sub_blanks s)"
proof (induction s rule: sub_blanks.induct)
  case 1
  then show ?case by simp
next
  case (2 c cs)
  show ?case
  proof (cases "is_blank c")
    case True
    have "blank_free_start (sub_blanks (dropWhile is_blank cs))"
      by (simp add: blank_free_blanks blank_free_start_dropWhile)
    with 2 True show ?thesis by simp
  next
    case False
    with 2 show ?thesis by simp
  qed
qed

lemma blanks_kept_by_line_start:
  "all_tails blank_ok s \<Longrightarrow> all_tails blank_ok (sub_line_start s)"
proof (induction s rule: sub_line_start.induct)
  case 1
  then show ?case by simp
next
  case (2 c cs)
  show ?case
  proof (cases "c = 10 \<and> takeWhile is_blank cs \<noteq> []")
    case True
    with 2 show ?thesis
      by (simp add: all_tails_dropWhile)
  next
    case False
    then have unfold: "sub_line_start (c # cs) = c # sub_line_start cs"
      by auto
    have tails: "all_tails blank_ok (sub_line_start cs)"
      using 2 False by simp
    have "blank_ok (c # sub_line_start cs)"
      using "2.prems" by (simp add: blank_free_line_start)
    with tails show ?thesis
      by (simp only: unfold all_tails.simps)
  qed
qed

lemma blanks_kept_by_line_end:
  "all_tails blank_ok s \<Longrightarrow> all_tails blank_ok (sub_line_end s)"
proof (induction s rule: sub_line_end.induct)
  case 1
  then show ?case by simp
next
  case (2 c cs)
  show ?case
  proof (cases "is_blank c \<and> (case dropWhile is_blank cs of [] \<Rightarrow> False | d # ds \<Rightarrow> d = 10)")
    case True
    then have unfold: "sub_line_end (c # cs) = 10 # sub_line_end (tl (dropWhile is_blank cs))"
      by simp
    have "all_tails blank_ok (tl (dropWhile is_blank cs))"
      using "2.prems" by (simp add: all_tails_dropWhile all_tails_tl)
    with "2.IH"(1) [OF True] show ?thesis
      by (simp only: unfold all_tails.simps) simp
  next
    case False
    then have unfold: "sub_line_end (c # cs) = c # sub_line_end cs"
      by auto
    have tails: "all_tails blank_ok (sub_line_end cs)"
      using 2 False by simp
    have "blank_ok (c # sub_line_end cs)"
      using "2.prems" by (simp add: blank_free_line_end)
    with tails show ?thesis
      by (simp only: unfold all_tails.simps)
  qed
qed

subsection \<open>Starts of lines\<close>

lemma line_start_fixed: "all_tails line_start_ok s \<Longrightarrow> sub_line_start s = s"
proof (induction s rule: sub_line_start.induct)
  case 1
  then show ?case by simp
next
  case (2 c cs)
  show ?case
  proof (cases "c = 10 \<and> takeWhile is_blank cs \<noteq> []")
    case True
    with "2.prems" have "blank_free_start cs"
      by simp
    then have "takeWhile is_blank cs = []"
      by (cases cs) (auto simp: blank_free_start_def)
    with True show ?thesis by simp
  next
    case False
    with 2 show ?thesis by auto
  qed
qed

lemma line_start_normal: "all_tails line_start_ok (sub_line_start s)"
proof (induction s rule: sub_line_start.induct)
  case 1
  then show ?case by simp
next
  case (2 c cs)
  show ?case
  proof (cases "c = 10 \<and> takeWhile is_blank cs \<noteq> []")
    case True
    have "blank_free_start (sub_line_start (dropWhile is_blank cs))"
      by (simp add: blank_free_line_start blank_free_start_dropWhile)
    with 2 True show ?thesis by simp
  next
    case False
    then have unfold: "sub_line_start (c # cs) = c # sub_line_start cs"
      by auto
    have tails: "all_tails line_start_ok (sub_line_start cs)"
      using 2 False by simp
    have "line_start_ok (c # sub_line_start cs)"
    proof (cases "c = 10")
      case True
      with False have "takeWhile is_blank cs = []"
        by simp
      then have "blank_free_start cs"
        by (cases cs) (auto simp: blank_free_start_def split: if_splits)
      with True show ?thesis
        by (simp add: blank_free_line_start)
    next
      case False
      then show ?thesis by simp
    qed
    with tails show ?thesis
      by (simp only: unfold all_tails.simps)
  qed
qed

lemma line_start_kept_by_line_end:
  "all_tails line_start_ok s \<Longrightarrow> all_tails line_start_ok (sub_line_end s)"
proof (induction s rule: sub_line_end.induct)
  case 1
  then show ?case by simp
next
  case (2 c cs)
  show ?case
  proof (cases "is_blank c \<and> (case dropWhile is_blank cs of [] \<Rightarrow> False | d # ds \<Rightarrow> d = 10)")
    case True
    then obtain ds where ds: "dropWhile is_blank cs = 10 # ds"
      by (auto split: list.splits)
    have unfold: "sub_line_end (c # cs) = 10 # sub_line_end ds"
      using True by (simp add: ds)
    have "all_tails line_start_ok (dropWhile is_blank cs)"
      using "2.prems" by (simp add: all_tails_dropWhile)
    then have here: "blank_free_start ds" and below: "all_tails line_start_ok ds"
      by (simp_all add: ds)
    have tails: "all_tails line_start_ok (sub_line_end ds)"
      using "2.IH"(1) [OF True] below by (simp add: ds)
    have "line_start_ok (10 # sub_line_end ds)"
      using here by (simp add: blank_free_line_end)
    with tails show ?thesis
      by (simp only: unfold all_tails.simps)
  next
    case False
    then have unfold: "sub_line_end (c # cs) = c # sub_line_end cs"
      by auto
    have tails: "all_tails line_start_ok (sub_line_end cs)"
      using 2 False by simp
    have "line_start_ok (c # sub_line_end cs)"
      using "2.prems" by (simp add: blank_free_line_end)
    with tails show ?thesis
      by (simp only: unfold all_tails.simps)
  qed
qed

subsection \<open>Ends of lines\<close>

lemma line_end_fixed: "all_tails line_end_ok s \<Longrightarrow> sub_line_end s = s"
proof (induction s rule: sub_line_end.induct)
  case 1
  then show ?case by simp
next
  case (2 c cs)
  show ?case
  proof (cases "is_blank c \<and> (case dropWhile is_blank cs of [] \<Rightarrow> False | d # ds \<Rightarrow> d = 10)")
    case True
    then obtain ds where ds: "dropWhile is_blank cs = 10 # ds"
      by (auto split: list.splits)
    with True "2.prems" show ?thesis
      by simp
  next
    case False
    with 2 show ?thesis by auto
  qed
qed

lemma no_line_feed_next:
  "(case xs of [] \<Rightarrow> True | d # ds \<Rightarrow> d \<noteq> (10::nat)) \<longleftrightarrow>
   \<not> (case xs of [] \<Rightarrow> False | d # ds \<Rightarrow> d = 10)"
  by (cases xs) simp_all

lemma line_end_first:
  "blank_free_start xs \<Longrightarrow> (case xs of [] \<Rightarrow> True | d # ds \<Rightarrow> d \<noteq> 10) \<Longrightarrow>
   (case sub_line_end xs of [] \<Rightarrow> True | d # ds \<Rightarrow> d \<noteq> 10)"
  by (cases xs) (auto simp: blank_free_start_def)

lemma line_end_dropWhile:
  "(case dropWhile is_blank s of [] \<Rightarrow> True | d # ds \<Rightarrow> d \<noteq> 10) \<Longrightarrow>
   dropWhile is_blank (sub_line_end s) = sub_line_end (dropWhile is_blank s)"
proof (induction s)
  case Nil
  then show ?case by simp
next
  case (Cons c cs)
  show ?case
  proof (cases "is_blank c")
    case True
    with Cons.prems have no: "\<not> (case dropWhile is_blank cs of [] \<Rightarrow> False | d # ds \<Rightarrow> d = 10)"
      by (simp add: no_line_feed_next)
    with True have "sub_line_end (c # cs) = c # sub_line_end cs"
      by simp
    with True Cons show ?thesis by simp
  next
    case False
    then show ?thesis by simp
  qed
qed

lemma line_end_normal: "all_tails line_end_ok (sub_line_end s)"
proof (induction s rule: sub_line_end.induct)
  case 1
  then show ?case by simp
next
  case (2 c cs)
  show ?case
  proof (cases "is_blank c \<and> (case dropWhile is_blank cs of [] \<Rightarrow> False | d # ds \<Rightarrow> d = 10)")
    case True
    with 2 show ?thesis by simp
  next
    case False
    then have unfold: "sub_line_end (c # cs) = c # sub_line_end cs"
      by auto
    have tails: "all_tails line_end_ok (sub_line_end cs)"
      using 2 False by simp
    have "line_end_ok (c # sub_line_end cs)"
    proof (cases "is_blank c")
      case True
      with False have no: "case dropWhile is_blank cs of [] \<Rightarrow> True | d # ds \<Rightarrow> d \<noteq> 10"
        by (simp add: no_line_feed_next)
      have "dropWhile is_blank (sub_line_end cs) = sub_line_end (dropWhile is_blank cs)"
        using no by (rule line_end_dropWhile)
      moreover have "case sub_line_end (dropWhile is_blank cs) of [] \<Rightarrow> True | d # ds \<Rightarrow> d \<noteq> 10"
        using blank_free_start_dropWhile no by (rule line_end_first)
      ultimately show ?thesis
        using True by simp
    next
      case False
      then show ?thesis by simp
    qed
    with tails show ?thesis
      by (simp only: unfold all_tails.simps)
  qed
qed


subsection \<open>Stripped strings\<close>

lemma last_dropWhile:
  "s \<noteq> [] \<Longrightarrow> \<not> Q (last s) \<Longrightarrow> dropWhile Q s \<noteq> [] \<and> last (dropWhile Q s) = last s"
  by (induction s) (auto split: if_splits)

lemma not_blank_last: "\<not> is_space c \<Longrightarrow> \<not> is_blank c"
  using blank_is_space by blast

lemma last_paragraphs:
  "s \<noteq> [] \<Longrightarrow> \<not> is_space (last s) \<Longrightarrow>
   sub_paragraphs s \<noteq> [] \<and> last (sub_paragraphs s) = last s"
proof (induction s rule: sub_paragraphs.induct)
  case 1
  then show ?case by simp
next
  case (2 c cs)
  show ?case
  proof (cases "c = 10 \<and> 10 \<in> set (takeWhile is_space cs)")
    case True
    then have ne: "cs \<noteq> []" by auto
    with "2.prems" have "\<not> is_space (last cs)" by simp
    with ne have "dropWhile is_space cs \<noteq> [] \<and> last (dropWhile is_space cs) = last cs"
      by (rule last_dropWhile)
    with "2.IH"(1) [OF True] \<open>\<not> is_space (last cs)\<close> True ne show ?thesis
      by simp
  next
    case False
    with 2 show ?thesis
      by (cases "cs = []") auto
  qed
qed

lemma last_blanks:
  "s \<noteq> [] \<Longrightarrow> \<not> is_space (last s) \<Longrightarrow>
   sub_blanks s \<noteq> [] \<and> last (sub_blanks s) = last s"
proof (induction s rule: sub_blanks.induct)
  case 1
  then show ?case by simp
next
  case (2 c cs)
  show ?case
  proof (cases "is_blank c")
    case True
    with "2.prems" have ne: "cs \<noteq> []"
      by (auto simp: blank_is_space)
    with "2.prems" have l: "\<not> is_blank (last cs)"
      by (simp add: not_blank_last)
    with ne have "dropWhile is_blank cs \<noteq> [] \<and> last (dropWhile is_blank cs) = last cs"
      by (rule last_dropWhile)
    with "2.IH"(1) [OF True] "2.prems" True ne show ?thesis
      by simp
  next
    case False
    with 2 show ?thesis
      by (cases "cs = []") auto
  qed
qed

lemma last_line_start:
  "s \<noteq> [] \<Longrightarrow> \<not> is_space (last s) \<Longrightarrow>
   sub_line_start s \<noteq> [] \<and> last (sub_line_start s) = last s"
proof (induction s rule: sub_line_start.induct)
  case 1
  then show ?case by simp
next
  case (2 c cs)
  show ?case
  proof (cases "c = 10 \<and> takeWhile is_blank cs \<noteq> []")
    case True
    then have ne: "cs \<noteq> []" by auto
    with "2.prems" have l: "\<not> is_blank (last cs)"
      by (simp add: not_blank_last)
    with ne have "dropWhile is_blank cs \<noteq> [] \<and> last (dropWhile is_blank cs) = last cs"
      by (rule last_dropWhile)
    with "2.IH"(1) [OF True] "2.prems" True ne show ?thesis
      by simp
  next
    case False
    then have unfold: "sub_line_start (c # cs) = c # sub_line_start cs"
      by auto
    from False 2 show ?thesis
      unfolding unfold by (cases "cs = []") auto
  qed
qed

lemma last_line_end:
  "s \<noteq> [] \<Longrightarrow> \<not> is_space (last s) \<Longrightarrow>
   sub_line_end s \<noteq> [] \<and> last (sub_line_end s) = last s"
proof (induction s rule: sub_line_end.induct)
  case 1
  then show ?case by simp
next
  case (2 c cs)
  show ?case
  proof (cases "is_blank c \<and> (case dropWhile is_blank cs of [] \<Rightarrow> False | d # ds \<Rightarrow> d = 10)")
    case True
    then obtain ds where ds: "dropWhile is_blank cs = 10 # ds"
      by (auto split: list.splits)
    have unfold: "sub_line_end (c # cs) = 10 # sub_line_end ds"
      using True by (simp add: ds)
    have ne: "cs \<noteq> []"
      using ds by auto
    with "2.prems" have l: "\<not> is_blank (last cs)" and l': "\<not> is_space (last cs)"
      by (simp_all add: not_blank_last)
    from ne l have "dropWhile is_blank cs \<noteq> [] \<and> last (dropWhile is_blank cs) = last cs"
      by (rule last_dropWhile)
    then have "last (10 # ds) = last cs"
      by (simp add: ds)
    with l' have nds: "ds \<noteq> []" and lds: "last ds = last cs"
      by (auto split: if_splits)
    from "2.IH"(1) [OF True] nds lds l' have "sub_line_end ds \<noteq> [] \<and> last (sub_line_end ds) = last ds"
      by (simp add: ds)
    with lds ne show ?thesis
      unfolding unfold by simp
  next
    case False
    then have unfold: "sub_line_end (c # cs) = c # sub_line_end cs"
      by auto
    from False 2 show ?thesis
      unfolding unfold by (cases "cs = []") auto
  qed
qed

lemma trimmed_clean_start: "trimmed s \<Longrightarrow> clean_start s"
  by (cases s) (auto simp: trimmed_def clean_start_def)

lemma trimmedI: "clean_start s \<Longrightarrow> (s \<noteq> [] \<Longrightarrow> \<not> is_space (last s)) \<Longrightarrow> trimmed s"
  by (cases s) (auto simp: trimmed_def clean_start_def)

lemma trimmed_strip: "trimmed (strip s)"
proof -
  define a where "a = dropWhile is_space s"
  define b where "b = rev (dropWhile is_space (rev a))"
  have a: "clean_start a"
    by (simp add: a_def clean_start_dropWhile)
  have split: "a = b @ rev (takeWhile is_space (rev a))"
  proof -
    have "b @ rev (takeWhile is_space (rev a)) =
            rev (takeWhile is_space (rev a) @ dropWhile is_space (rev a))"
      by (simp only: b_def rev_append)
    also have "\<dots> = rev (rev a)"
      by (simp only: takeWhile_dropWhile_id)
    finally show ?thesis
      by simp
  qed
  have "clean_start b"
  proof (cases b)
    case Nil
    then show ?thesis by (simp add: clean_start_def)
  next
    case (Cons x xs)
    with split have "hd a = x" by (metis append_Cons list.sel(1))
    moreover from Cons split have "a \<noteq> []" by auto
    ultimately show ?thesis
      using a Cons by (cases a) (auto simp: clean_start_def)
  qed
  moreover have "\<not> is_space (last b)" if "b \<noteq> []"
  proof -
    from that have ne: "dropWhile is_space (rev a) \<noteq> []"
      by (simp add: b_def)
    then have "\<not> is_space (hd (dropWhile is_space (rev a)))"
      by (rule hd_dropWhile)
    with ne show ?thesis
      by (simp add: b_def last_rev)
  qed
  ultimately have "trimmed b"
    by (rule trimmedI)
  then show ?thesis
    by (simp add: strip_def a_def b_def)
qed

lemma strip_trimmed: "trimmed s \<Longrightarrow> strip s = s"
proof (cases s)
  case Nil
  then show ?thesis by (simp add: strip_def)
next
  case (Cons c cs)
  assume "trimmed s"
  with Cons have h: "\<not> is_space c" and l: "\<not> is_space (last s)"
    by (auto simp: trimmed_def)
  have "dropWhile is_space s = s"
    using h Cons by simp
  moreover have "dropWhile is_space (rev s) = rev s"
  proof -
    have "s \<noteq> []"
      using Cons by simp
    then obtain xs x where sx: "s = xs @ [x]"
      using rev_exhaust [of s] by blast
    with l have "\<not> is_space x"
      by simp
    then show ?thesis
      by (simp add: sx)
  qed
  ultimately show ?thesis
    by (simp add: strip_def)
qed

lemma trimmed_paragraphs:
  assumes "trimmed s"
  shows "trimmed (sub_paragraphs s)"
proof (rule trimmedI)
  show "clean_start (sub_paragraphs s)"
    using assms by (simp add: clean_start_paragraphs trimmed_clean_start)
next
  assume "sub_paragraphs s \<noteq> []"
  then have ne: "s \<noteq> []"
    by auto
  with assms have "\<not> is_space (last s)"
    by (simp add: trimmed_def)
  with ne show "\<not> is_space (last (sub_paragraphs s))"
    using last_paragraphs [of s] by simp
qed

lemma trimmed_blanks:
  assumes "trimmed s"
  shows "trimmed (sub_blanks s)"
proof (rule trimmedI)
  show "clean_start (sub_blanks s)"
    using assms by (simp add: clean_start_blanks trimmed_clean_start)
next
  assume "sub_blanks s \<noteq> []"
  then have ne: "s \<noteq> []"
    by auto
  with assms have "\<not> is_space (last s)"
    by (simp add: trimmed_def)
  with ne show "\<not> is_space (last (sub_blanks s))"
    using last_blanks [of s] by simp
qed

lemma trimmed_line_start:
  assumes "trimmed s"
  shows "trimmed (sub_line_start s)"
proof (rule trimmedI)
  show "clean_start (sub_line_start s)"
    using assms by (simp add: clean_start_line_start trimmed_clean_start)
next
  assume "sub_line_start s \<noteq> []"
  then have ne: "s \<noteq> []"
    by auto
  with assms have "\<not> is_space (last s)"
    by (simp add: trimmed_def)
  with ne show "\<not> is_space (last (sub_line_start s))"
    using last_line_start [of s] by simp
qed

lemma trimmed_line_end:
  assumes "trimmed s"
  shows "trimmed (sub_line_end s)"
proof (rule trimmedI)
  show "clean_start (sub_line_end s)"
    using assms by (simp add: clean_start_line_end trimmed_clean_start)
next
  assume "sub_line_end s \<noteq> []"
  then have ne: "s \<noteq> []"
    by auto
  with assms have "\<not> is_space (last s)"
    by (simp add: trimmed_def)
  with ne show "\<not> is_space (last (sub_line_end s))"
    using last_line_end [of s] by simp
qed

lemma clean_unfold:
  "clean_extra_whitespace s =
     strip (sub_line_end (sub_line_start (sub_blanks (sub_paragraphs (strip s)))))"
  by (simp add: clean_extra_whitespace_def strip_def)

lemma clean_result:
  "clean_extra_whitespace s =
     sub_line_end (sub_line_start (sub_blanks (sub_paragraphs (strip s))))"
  unfolding clean_unfold
  by (intro strip_trimmed trimmed_line_end trimmed_line_start trimmed_blanks trimmed_paragraphs
      trimmed_strip)

lemma clean_fixed:
  assumes "trimmed t" and "all_tails paragraph_ok t" and "all_tails blank_ok t"
    and "all_tails line_start_ok t" and "all_tails line_end_ok t"
  shows "clean_extra_whitespace t = t"
  unfolding clean_unfold
  by (simp add: assms strip_trimmed paragraphs_fixed blanks_fixed line_start_fixed line_end_fixed)

section \<open>Scenario A\<close>

text \<open>
  C1, as the specification states it: for the input of scenario A (the code points
  36825 20010 38382 39064 19981 21487 20197 35299 20915), the replace rule
  19981 21487 20197 \<open>\<rightarrow>\<close> 21487 20197 and the delete rule 38382 39064, the content after the
  replace and delete stages is 36825 20010 35299 20915. It is not: with the library of
  literal patterns the two stages give 36825 20010 21487 20197 35299 20915, the
  replacement text stays in the content.
\<close>

theorem scenario_a_counterexample:
  "replace_delete_stages literal_re
     [new_replace_rule [19981, 21487, 20197] [21487, 20197]] [new_delete_rule [38382, 39064]]
     [36825, 20010, 38382, 39064, 19981, 21487, 20197, 35299, 20915]
   = Some [36825, 20010, 21487, 20197, 35299, 20915] \<and>
   [36825, 20010, 21487, 20197, 35299, 20915] \<noteq> [36825, 20010, 35299, 20915 :: nat]"
  by (simp add: replace_delete_stages_def replace_step_literally delete_step_literally
      literal_re_literally is_meta_def)

text \<open>
  C1, amended: for every regular expression library that reads the two patterns
  literally, the content after the replace and delete stages is
  36825 20010 21487 20197 35299 20915 (the input without 38382 39064 and without 19981).
\<close>

theorem scenario_a:
  assumes "literally re [19981, 21487, 20197] [21487, 20197]"
    and "literally re [38382, 39064] []"
  shows "replace_delete_stages re
     [new_replace_rule [19981, 21487, 20197] [21487, 20197]] [new_delete_rule [38382, 39064]]
     [36825, 20010, 38382, 39064, 19981, 21487, 20197, 35299, 20915]
   = Some [36825, 20010, 21487, 20197, 35299, 20915]"
  by (simp add: replace_delete_stages_def replace_step_literally [OF assms(1)]
      delete_step_literally [OF assms(2)])

theorem scenario_a_witness:
  "literally literal_re [19981, 21487, 20197] [21487, 20197] \<and>
   literally literal_re [38382, 39064] [] \<and>
   replace_delete_stages literal_re
     [new_replace_rule [19981, 21487, 20197] [21487, 20197]] [new_delete_rule [38382, 39064]]
     [36825, 20010, 38382, 39064, 19981, 21487, 20197, 35299, 20915]
   = Some [36825, 20010, 21487, 20197, 35299, 20915]"
proof -
  have a: "literally literal_re [19981, 21487, 20197] [21487, 20197]"
    by (simp add: literal_re_literally is_meta_def)
  have b: "literally literal_re [38382, 39064] []"
    by (simp add: literal_re_literally is_meta_def)
  show ?thesis
    using a b scenario_a [OF a b] by simp
qed

section \<open>The append stage\<close>

text \<open>
  C2, as the specification states it: after two enabled start rules, the content of
  the rule processed last is closest to the original content. It is not: the rules
  \<open>a\<close> then \<open>b\<close> turn \<open>x\<close> into \<open>bax\<close>, which does not end with \<open>bx\<close>.
\<close>

theorem last_start_rule_counterexample:
  "apply_append_rules
     [new_append_rule (u ''a'') (u ''start''), new_append_rule (u ''b'') (u ''start'')] (u ''x'')
   = Some (u ''bax'') \<and>
   \<not> ends_with (u ''bax'') (u ''b'' @ u ''x'')"
  by (simp add: new_append_rule_def append_step_def u_def ends_with_def)

text \<open>
  C2, amended: enabled start rules put their contents in front of the buffer, each in
  front of the earlier ones, so the buffer becomes the contents in reverse list order
  followed by the original content: the rule processed first is closest to the
  original content and the rule processed last is at the very front. Enabled end rules
  put their contents behind the buffer in list order.
\<close>

theorem append_stage_order:
  assumes "list_all2 is_start_rule starts cs" and "cs \<noteq> []"
    and "list_all2 is_end_rule ends ds"
  shows "apply_append_rules starts buf = Some (concat (rev cs) @ buf) \<and>
         ends_with (concat (rev cs) @ buf) (hd cs @ buf) \<and>
         begins_with (concat (rev cs) @ buf) (last cs) \<and>
         apply_append_rules ends buf = Some (buf @ concat ds)"
proof -
  obtain c cs' where cs: "cs = c # cs'"
    using assms(2) by (cases cs) auto
  have "ends_with (concat (rev cs) @ buf) (hd cs @ buf)"
    by (simp add: cs ends_with_def)
  moreover have "begins_with (concat (rev cs) @ buf) (last cs)"
  proof -
    obtain xs x where "cs = xs @ [x]"
      using assms(2) by (cases cs rule: rev_cases) auto
    then show ?thesis by (simp add: begins_with_def)
  qed
  ultimately show ?thesis
    using start_rules_prefix [OF assms(1)] end_rules_suffix [OF assms(3)] by simp
qed

theorem append_stage_order_witness:
  "list_all2 is_start_rule
     [new_append_rule (u ''a'') (u ''start''), new_append_rule (u ''b'') (u ''start'')]
     [u ''a'', u ''b''] \<and>
   [u ''a'', u ''b''] \<noteq> [] \<and>
   list_all2 is_end_rule
     [new_append_rule (u ''c'') (u ''end''), new_append_rule (u ''d'') (u ''end'')]
     [u ''c'', u ''d''] \<and>
   apply_append_rules
     [new_append_rule (u ''a'') (u ''start''), new_append_rule (u ''b'') (u ''start'')] (u ''x'')
   = Some (u ''bax'') \<and>
   ends_with (u ''bax'') (u ''ax'') \<and>
   begins_with (u ''bax'') (u ''b'') \<and>
   apply_append_rules
     [new_append_rule (u ''c'') (u ''end''), new_append_rule (u ''d'') (u ''end'')] (u ''x'')
   = Some (u ''xcd'')"
proof -
  have s: "list_all2 is_start_rule
     [new_append_rule (u ''a'') (u ''start''), new_append_rule (u ''b'') (u ''start'')]
     [u ''a'', u ''b'']"
    by (simp add: new_start_rule)
  have n: "[u ''a'', u ''b''] \<noteq> []"
    by simp
  have e: "list_all2 is_end_rule
     [new_append_rule (u ''c'') (u ''end''), new_append_rule (u ''d'') (u ''end'')]
     [u ''c'', u ''d'']"
    by (simp add: new_end_rule)
  show ?thesis
    using s e append_stage_order [OF s n e, of "u ''x''"] by (simp add: u_def)
qed

section \<open>Loading without a usable file\<close>

text \<open>
  C3, as the specification states it: when the file is missing, \<open>load_config\<close> returns
  the documented defaults, with two replace rules and one delete rule. It does not:
  it returns the empty configuration, in which the filter finds no replace rule,
  while the defaults of the schema have two.
\<close>

theorem load_missing_counterexample:
  "fst (load_config (toml_const default_config) FileMissing) = [] \<and>
   rules_of (fst (load_config (toml_const default_config) FileMissing)) ''replace_rules'' = Some [] \<and>
   rules_of default_config ''replace_rules'' = Some default_replace_rules \<and>
   length default_replace_rules = 2"
  by (simp add: rules_of_def default_config_def default_replace_rules_def)

text \<open>
  C3, amended: when the file is missing, cannot be read or cannot be parsed,
  \<open>load_config\<close> returns the empty configuration, which the plugin reads as: no replace
  rule, no delete rule, no append rule, plugin enabled, no logging of changes; a
  failure to read or parse is logged and nothing is raised. The sample rules and the
  maximal content length belong to the schema of the plugin class only.
\<close>

theorem load_config_fallback:
  "load_config toml FileMissing = ([], False) \<and>
   load_config toml FileUnreadable = ([], True) \<and>
   (toml txt = None \<longrightarrow> load_config toml (FileText txt) = ([], True)) \<and>
   rules_of [] ''replace_rules'' = Some [] \<and>
   rules_of [] ''delete_rules'' = Some [] \<and>
   rules_of [] ''append_rules'' = Some [] \<and>
   plugin_enabled [] = Some (TBool True) \<and>
   log_changes_of [] = Some (TBool False)"
  by (simp add: rules_of_def plugin_enabled_def log_changes_of_def)

theorem load_config_fallback_witness:
  "toml_const default_config (u ''x'') = None \<and>
   load_config (toml_const default_config) FileMissing = ([], False) \<and>
   load_config (toml_const default_config) FileUnreadable = ([], True) \<and>
   load_config (toml_const default_config) (FileText (u ''x'')) = ([], True)"
  using load_config_fallback [of "toml_const default_config" "u ''x''"]
  by (simp add: toml_const_def u_def)

section \<open>The test command against the filter\<close>

text \<open>
  C4, at the input where the code departs from it: a replace rule \<open>a\<close> \<open>\<rightarrow>\<close> \<open>b\<close> with
  \<open>ignore_case\<close> set, and the text \<open>A\<close>. The stages of the filter pass the flag and give
  \<open>b\<close>; the loops of the test command pass no flag and leave \<open>A\<close>.
\<close>

theorem test_ignores_flags:
  "replace_delete_stages literal_re [ignore_case_rule] [] (u ''A'') = Some (u ''b'') \<and>
   test_stages literal_re [ignore_case_rule] [] (u ''A'') = Some (u ''A'') \<and>
   processed_text (test_execute literal_re
      (toml_const [(''rules'', TTable [(''replace_rules'', TList [ignore_case_rule])])])
      (FileText []) \<lparr>raw = u ''A'', tokens = [u ''A'']\<rparr>) = u ''A''"
  by (simp add: replace_delete_stages_def test_stages_def ignore_case_rule_def replace_step_def
      test_replace_step_def rule_flags_def re_sub_def literal_re_def is_meta_def u_def
      re_IGNORECASE_def re_MULTILINE_def lower_ascii_def test_execute_def toml_const_def
      rules_of_def Let_def)

section \<open>The disabled plugin\<close>

text \<open>
  C6: when the configuration that is loaded has its \<open>plugin.enabled\<close> false, the handler
  returns at once and the parameters, the content of the response among them, are as
  they were, whatever the rules are.
\<close>

theorem disabled_is_noop:
  assumes "plugin_enabled (fst (load_config toml file)) = Some v" and "\<not> truthy v"
  shows "execute re toml file params = (handled MsgPluginDisabled, params)"
  using assms by (simp add: execute_def)

theorem disabled_is_noop_witness:
  "plugin_enabled (fst (load_config (toml_const disabled_config) (FileText []))) = Some (TBool False) \<and>
   \<not> truthy (TBool False) \<and>
   execute literal_re (toml_const disabled_config) (FileText []) sample_params
     = (handled MsgPluginDisabled, sample_params)"
proof -
  have a: "plugin_enabled (fst (load_config (toml_const disabled_config) (FileText [])))
             = Some (TBool False)"
    by (simp add: toml_const_def disabled_config_def plugin_enabled_def)
  have b: "\<not> truthy (TBool False)"
    by simp
  show ?thesis
    using a b disabled_is_noop [OF a b, of literal_re sample_params] by simp
qed

section \<open>Fault isolation\<close>



section \<open>What the handler writes\<close>

text \<open>
  C10: the handler leaves the parameters as they are, or it has computed from the
  string content of the response a cleaned content that differs from it and has
  written that as the content; when the cleaned content equals the original nothing
  is written; no field of the response other than \<open>content\<close> and no parameter other
  than the response is ever changed.
\<close>

theorem content_written_only_on_change:
  assumes "execute re toml file params = (res, params')"
  shows "(params' = params \<or>
          (\<exists>original cleaned.
             response_field params ''content'' = Some (TStr original) \<and>
             transform re (fst (load_config toml file)) original = Some cleaned \<and>
             cleaned \<noteq> original \<and>
             response_field params' ''content'' = Some (TStr cleaned))) \<and>
         (\<forall>original. response_field params ''content'' = Some (TStr original) \<longrightarrow>
             transform re (fst (load_config toml file)) original = Some original \<longrightarrow>
             params' = params) \<and>
         (\<forall>k. k \<noteq> ''content'' \<longrightarrow> response_field params' k = response_field params k) \<and>
         (\<forall>k. k \<noteq> ''llm_response'' \<longrightarrow> param_entry params' k = param_entry params k)"
proof -
  from execute_cases [OF assms] show ?thesis
  proof
    assume "params' = params"
    then show ?thesis by simp
  next
    assume "\<exists>pm llm original cleaned.
            params = Some pm \<and> map_of pm ''llm_response'' = Some (TTable llm) \<and>
            map_of llm ''content'' = Some (TStr original) \<and>
            transform re (fst (load_config toml file)) original = Some cleaned \<and>
            cleaned \<noteq> original \<and>
            params' = Some (AList.update ''llm_response''
                        (TTable (AList.update ''content'' (TStr cleaned) llm)) pm)"
    then obtain pm llm original cleaned where
      p: "params = Some pm" and l: "map_of pm ''llm_response'' = Some (TTable llm)" and
      c: "map_of llm ''content'' = Some (TStr original)" and
      t: "transform re (fst (load_config toml file)) original = Some cleaned" and
      d: "cleaned \<noteq> original" and
      p': "params' = Some (AList.update ''llm_response''
                        (TTable (AList.update ''content'' (TStr cleaned) llm)) pm)"
      by blast
    have orig: "response_field params ''content'' = Some (TStr original)"
      by (simp add: response_field_def param_entry_def p l c)
    have new: "response_field params' ''content'' = Some (TStr cleaned)"
      by (simp add: response_field_def param_entry_def p' update_conv')
    have other: "response_field params' k = response_field params k" if "k \<noteq> ''content''" for k
      using that by (simp add: response_field_def param_entry_def p p' l update_conv')
    have entries: "param_entry params' k = param_entry params k" if "k \<noteq> ''llm_response''" for k
      using that by (simp add: param_entry_def p p' update_conv')
    show ?thesis
      using orig new other entries t d by auto
  qed
qed

theorem content_written_only_on_change_witness:
  "execute literal_re (toml_const default_config) (FileText []) sample_params
     = (handled MsgProcessed,
        Some [(''llm_response'',
               TTable [(''content'', TStr [36825, 20010, 21487, 20197, 35299, 20915]),
                       (''model'', TStr (u ''m''))])]) \<and>
   response_field sample_params ''model''
     = response_field (Some [(''llm_response'',
               TTable [(''content'', TStr [36825, 20010, 21487, 20197, 35299, 20915]),
                       (''model'', TStr (u ''m''))])]) ''model''"
proof -
  have t: "transform literal_re default_config
             [36825, 20010, 38382, 39064, 19981, 21487, 20197, 35299, 20915]
           = Some [36825, 20010, 21487, 20197, 35299, 20915]"
    by (simp add: transform_def rules_of_def default_config_def default_replace_rules_def
        default_delete_rules_def replace_step_def delete_step_def rule_flags_def re_sub_def
        literal_re_def is_meta_def re_IGNORECASE_def clean_extra_whitespace_def strip_def
        is_space_def is_blank_def)
  have e: "execute literal_re (toml_const default_config) (FileText []) sample_params
     = (handled MsgProcessed,
        Some [(''llm_response'',
               TTable [(''content'', TStr [36825, 20010, 21487, 20197, 35299, 20915]),
                       (''model'', TStr (u ''m''))])])"
  proof -
    have pe: "plugin_enabled default_config = Some (TBool True)"
      by (simp add: default_config_def plugin_enabled_def)
    have lc: "log_changes_of default_config = Some (TBool False)"
      by (simp add: default_config_def log_changes_of_def)
    show ?thesis
      by (simp add: execute_def sample_params_def toml_const_def t pe lc)
  qed
  show ?thesis
    using e content_written_only_on_change [OF e] by simp
qed

section \<open>Removing a rule by its index\<close>



section \<open>The whitespace clean-up is idempotent\<close>

text \<open>
  C5: cleaning a cleaned string changes nothing, for every string. The result of the
  clean-up is stripped and is left alone by each of the four substitutions, since
  each later substitution keeps what the earlier ones have established.
\<close>

theorem clean_idempotent:
  "clean_extra_whitespace (clean_extra_whitespace s) = clean_extra_whitespace s"
proof (rule clean_fixed)
  let ?p = "sub_paragraphs (strip s)"
  show "trimmed (clean_extra_whitespace s)"
    unfolding clean_result
    by (intro trimmed_line_end trimmed_line_start trimmed_blanks trimmed_paragraphs trimmed_strip)
  show "all_tails paragraph_ok (clean_extra_whitespace s)"
    unfolding clean_result
    by (intro paragraphs_kept_by_line_end paragraphs_kept_by_line_start paragraphs_kept_by_blanks
        paragraphs_normal)
  show "all_tails blank_ok (clean_extra_whitespace s)"
    unfolding clean_result
    by (intro blanks_kept_by_line_end blanks_kept_by_line_start blanks_normal)
  show "all_tails line_start_ok (clean_extra_whitespace s)"
    unfolding clean_result
    by (intro line_start_kept_by_line_end line_start_normal)
  show "all_tails line_end_ok (clean_extra_whitespace s)"
    unfolding clean_result
    by (rule line_end_normal)
qed

section \<open>Lemmas on reading the generated text\<close>

subsection \<open>Lines\<close>








subsection \<open>Values\<close>

lemma replace_char_append:
  "replace_char a r (s @ t) = replace_char a r s @ replace_char a r t"
  by (simp add: replace_char_def)

lemma replace_char_concat:
  "replace_char a r (concat ss) = concat (map (replace_char a r) ss)"
  by (induction ss) (simp_all add: replace_char_append, simp add: replace_char_def)
















subsection \<open>Lines of the generated text\<close>














subsection \<open>Header lines and comments\<close>





























subsection \<open>The text of a rule\<close>











subsection \<open>The text of the rule lists\<close>






subsection \<open>The text of the three parts\<close>





subsection \<open>The whole text\<close>



subsection \<open>Assembling the sections\<close>










subsection \<open>The saved configuration holds the same rule set\<close>













section \<open>Saving and loading again\<close>



end
